theory Spec2Isabelle
  imports Complex_Main
begin

section \<open>Data model of the container variant (docker-load-balancer.ts, docker-manager.ts)\<close>

text \<open>
  A \<^verbatim>\<open>DockerInstance\<close> is a JavaScript object that is shared by reference between the
  \<^verbatim>\<open>instances\<close> array, the closures of \<^verbatim>\<open>handleRequest\<close> and the pending
  asynchronous calls. Objects therefore live in an explicit store: a reference is a
  natural number, the store maps references to records, and the pool is a list of
  references in insertion order. \<^verbatim>\<open>indexOf\<close> compares references.

  Counters, timestamps and ports are JavaScript numbers that only ever hold integers
  here; they are modelled as unbounded integers, whose sums and differences are exact
  (as they are in the code below \<^verbatim>\<open>2^53\<close>). Loads and their averages are not
  integers: they are IEEE doubles, modelled as the rational numbers they denote, and
  every division and addition that produces one is rounded as the machine rounds it.
\<close>

type_synonym ref = nat

datatype Status = Starting | Running | Stopping | Stopped

record DockerInstance =
  inst_id :: string
  containerId :: string
  port :: int
  containerName :: string
  lastHealth :: int
  isHealthy :: bool
  activeRequests :: int
  totalRequests :: int
  lastRequestTime :: int
  responseTime :: int
  status :: Status

record AppConfig =
  dockerImage :: string
  containerPort :: int
  minInstances :: int
  maxInstances :: int
  checkInterval :: int
  healthTimeout :: int
  scaleUpThreshold :: rat
  scaleDownThreshold :: rat
  idleTimeout :: int
  healthEndpoint :: string
  containerPrefix :: string

text \<open>The commands handed to \<^verbatim>\<open>executeDockerCommand\<close>, in the order they are issued.\<close>

datatype DockerCmd =
  DockerRun string int
| DockerStop string
| DockerRm string
| DockerRmForce string

text \<open>
  The fields of the class \<^verbatim>\<open>DockerLoadBalancer\<close>, the object store, and the ports held
  by activations of \<^verbatim>\<open>spawnInstance\<close> that are suspended in
  \<^verbatim>\<open>await createContainer(port)\<close> (their local variable \<^verbatim>\<open>port\<close>).
\<close>

record LB =
  instances :: "ref list"
  heap :: "ref \<Rightarrow> DockerInstance"
  nextRef :: ref
  nextPort :: int
  spawning :: "int list"
  dockerLog :: "DockerCmd list"

definition blankInstance :: DockerInstance where
  "blankInstance = \<lparr>inst_id = [], containerId = [], port = 0, containerName = [],
     lastHealth = 0, isHealthy = False, activeRequests = 0, totalRequests = 0,
     lastRequestTime = 0, responseTime = 0, status = Starting\<rparr>"

definition initLB :: LB where
  "initLB = \<lparr>instances = [], heap = (\<lambda>_. blankInstance), nextRef = 0, nextPort = 5001,
     spawning = [], dockerLog = []\<rparr>"

definition modify :: "ref \<Rightarrow> (DockerInstance \<Rightarrow> DockerInstance) \<Rightarrow> LB \<Rightarrow> LB" where
  "modify r f s = s\<lparr>heap := (heap s)(r := f (heap s r))\<rparr>"

section \<open>Port allocation and spawning\<close>

definition getNextPort :: "LB \<Rightarrow> int \<times> LB" where
  "getNextPort s = (nextPort s, s\<lparr>nextPort := nextPort s + 1\<rparr>)"

text \<open>
  \<^verbatim>\<open>createContainer\<close>: \<open>out\<close> is the result of \<^verbatim>\<open>docker run\<close> (\<open>None\<close> when the
  command fails and the function throws), \<open>uuid\<close> the value of \<^verbatim>\<open>randomUUID()\<close>,
  \<open>now\<close> the clock.
\<close>

definition createContainer ::
  "AppConfig \<Rightarrow> int \<Rightarrow> string \<Rightarrow> string option \<Rightarrow> int \<Rightarrow> DockerInstance option" where
  "createContainer cfg p uuid out now =
     (case out of
        None \<Rightarrow> None
      | Some cid \<Rightarrow>
          Some \<lparr>inst_id = uuid, containerId = take 12 cid, port = p,
                containerName = containerPrefix cfg @ ''-'' @ take 8 uuid,
                lastHealth = now, isHealthy = False, activeRequests = 0, totalRequests = 0,
                lastRequestTime = now, responseTime = 0, status = Starting\<rparr>)"

text \<open>\<^verbatim>\<open>spawnInstance\<close> up to its first suspension: the port is taken.\<close>

definition spawnInstance_begin :: "LB \<Rightarrow> LB" where
  "spawnInstance_begin s =
     (let (p, s1) = getNextPort s in s1\<lparr>spawning := spawning s1 @ [p]\<rparr>)"

text \<open>
  \<^verbatim>\<open>spawnInstance\<close> resumed with the result of \<^verbatim>\<open>createContainer\<close>: on success the new
  object is pushed and \<^verbatim>\<open>waitForInstanceReady\<close> sets its status before it suspends; on
  failure the error is rethrown and nothing is pushed.
\<close>

definition spawnInstance_resume ::
  "AppConfig \<Rightarrow> int \<Rightarrow> string \<Rightarrow> string option \<Rightarrow> int \<Rightarrow> LB \<Rightarrow> LB" where
  "spawnInstance_resume cfg p uuid out now s =
     (if p \<notin> set (spawning s) then s
      else
        (let s1 = s\<lparr>spawning := remove1 p (spawning s),
                     dockerLog := dockerLog s @
                       [DockerRun (containerPrefix cfg @ ''-'' @ take 8 uuid) p]\<rparr>
         in case createContainer cfg p uuid out now of
              None \<Rightarrow> s1
            | Some inst \<Rightarrow>
                s1\<lparr>instances := instances s1 @ [nextRef s1],
                   heap := (heap s1)(nextRef s1 := inst\<lparr>status := Starting\<rparr>),
                   nextRef := Suc (nextRef s1)\<rparr>))"

section \<open>Removal\<close>

text \<open>\<^verbatim>\<open>Array.prototype.indexOf\<close> (\<open>-1\<close> when absent) and \<^verbatim>\<open>splice(index, 1)\<close>.\<close>

fun indexOf :: "'a list \<Rightarrow> 'a \<Rightarrow> int" where
  "indexOf [] x = -1"
| "indexOf (y # ys) x =
     (if y = x then 0 else (let i = indexOf ys x in if i = -1 then -1 else i + 1))"

definition splice1 :: "'a list \<Rightarrow> int \<Rightarrow> 'a list" where
  "splice1 xs i = take (nat i) xs @ drop (nat i + 1) xs"

text \<open>
  \<^verbatim>\<open>removeContainer\<close>: \<open>stopOk\<close> and \<open>rmOk\<close> say whether \<^verbatim>\<open>docker stop\<close> and
  \<^verbatim>\<open>docker rm\<close> succeed. A failure of either is caught and answered by
  \<^verbatim>\<open>docker rm -f\<close>, whose own failure is caught and logged; the function never throws.
\<close>

record RemoveOutcome =
  stopOk :: bool
  rmOk :: bool

definition logCmd :: "DockerCmd \<Rightarrow> LB \<Rightarrow> LB" where
  "logCmd c s = s\<lparr>dockerLog := dockerLog s @ [c]\<rparr>"

definition removeContainer :: "RemoveOutcome \<Rightarrow> ref \<Rightarrow> LB \<Rightarrow> LB" where
  "removeContainer oc r s =
     (let cid = containerId (heap s r);
          s1 = logCmd (DockerStop cid) s
      in if stopOk oc then
           (let s2 = logCmd (DockerRm cid) (modify r (\<lambda>i. i\<lparr>status := Stopping\<rparr>) s1)
            in if rmOk oc then modify r (\<lambda>i. i\<lparr>status := Stopped\<rparr>) s2
               else logCmd (DockerRmForce cid) s2)
         else logCmd (DockerRmForce cid) s1)"

definition removeInstance :: "RemoveOutcome \<Rightarrow> ref \<Rightarrow> LB \<Rightarrow> LB" where
  "removeInstance oc r s =
     (let index = indexOf (instances s) r;
          s1 = (if index > -1 then s\<lparr>instances := splice1 (instances s) index\<rparr> else s)
      in removeContainer oc r s1)"

section \<open>Health probing\<close>

text \<open>
  The outcome of one \<^verbatim>\<open>http.get\<close> probe: a response with its status code, the time the
  probe started and the time the response arrived; a transport error; or a timeout.
\<close>

datatype ProbeResult = ProbeResponse int int int | ProbeError | ProbeTimeout

definition checkInstanceHealth :: "ref \<Rightarrow> ProbeResult \<Rightarrow> LB \<Rightarrow> LB" where
  "checkInstanceHealth r pr s =
     (case pr of
        ProbeResponse code t0 now \<Rightarrow>
          (if code = 200
           then modify r (\<lambda>i. i\<lparr>lastHealth := now, isHealthy := True,
                                  responseTime := now - t0\<rparr>) s
           else modify r (\<lambda>i. i\<lparr>isHealthy := False\<rparr>) s)
      | ProbeError \<Rightarrow> modify r (\<lambda>i. i\<lparr>isHealthy := False\<rparr>) s
      | ProbeTimeout \<Rightarrow> modify r (\<lambda>i. i\<lparr>isHealthy := False\<rparr>) s)"

text \<open>
  One tick of \<^verbatim>\<open>healthCheckAll\<close>: every instance of the pool is probed (\<open>probes r\<close> is
  the outcome for \<open>r\<close>), then the clock is read and every instance that is unhealthy and
  was last healthy more than 60000 ms ago is removed, in pool order.
\<close>

definition healthCheckAll ::
  "(ref \<Rightarrow> ProbeResult) \<Rightarrow> int \<Rightarrow> (ref \<Rightarrow> RemoveOutcome) \<Rightarrow> LB \<Rightarrow> LB" where
  "healthCheckAll probes now ocs s =
     (let s1 = foldl (\<lambda>t r. checkInstanceHealth r (probes r) t) s (instances s);
          unhealthyInstances =
            filter (\<lambda>r. \<not> isHealthy (heap s1 r) \<and> now - lastHealth (heap s1 r) > 60000)
              (instances s1)
      in foldl (\<lambda>t r. removeInstance (ocs r) r t) s1 unhealthyInstances)"

text \<open>
  \<^verbatim>\<open>waitForInstanceReady\<close>: the effect of one observed container status (only
  \<^verbatim>\<open>"running"\<close> changes the record; the error thrown for \<^verbatim>\<open>"exited"\<close> and
  \<^verbatim>\<open>"not-found"\<close> is caught inside the loop), and the removal when the wait expires.
  The probe of one iteration is \<open>checkInstanceHealth\<close>.
\<close>

definition waitForInstanceReady_status :: "ref \<Rightarrow> string \<Rightarrow> LB \<Rightarrow> LB" where
  "waitForInstanceReady_status r containerStatus s =
     (if containerStatus = ''running'' then modify r (\<lambda>i. i\<lparr>status := Running\<rparr>) s else s)"

definition waitForInstanceReady_expired :: "RemoveOutcome \<Rightarrow> ref \<Rightarrow> LB \<Rightarrow> LB" where
  "waitForInstanceReady_expired oc r s = removeInstance oc r s"

section \<open>Double arithmetic\<close>

text \<open>
  A finite double is \<^verbatim>\<open>m * 2^e\<close> with \<^verbatim>\<open>|m| < 2^53\<close>. An arithmetic operation of the
  language returns the double nearest to the exact result, the one with even \<^verbatim>\<open>m\<close>
  when two are equally near. \<open>fl x\<close> is that double for the exact result \<open>x\<close>. For a
  positive fraction \<open>p / q\<close>, \<open>flPos p q\<close> writes it as \<^verbatim>\<open>n / (q * 2^(b+53))\<close> with
  \<open>b\<close> the bit length of \<open>q\<close>, takes for \<open>ulp\<close> the power-of-two multiple of \<open>q\<close> for
  which \<^verbatim>\<open>n / ulp\<close> lies between \<^verbatim>\<open>2^52\<close> and \<^verbatim>\<open>2^53\<close>, and rounds \<open>n\<close> to a multiple
  of \<open>ulp\<close>, half to even.

  The exponent range of doubles is not modelled: the quotients and sums of this program
  lie between \<^verbatim>\<open>0.001\<close> divided by the size of the pool and a small multiple of the
  counters, far from \<^verbatim>\<open>2^-1022\<close> and \<^verbatim>\<open>2^1024\<close>.
\<close>

function bitLength :: "int \<Rightarrow> nat" where
  "bitLength n = (if n \<le> 0 then 0 else Suc (bitLength (n div 2)))"
  by pat_completeness auto
termination
  by (relation "measure nat") auto

declare bitLength.simps [simp del]

definition roundHalfEven :: "int \<Rightarrow> int \<Rightarrow> int" where
  "roundHalfEven n d =
     (let q = n div d; r = n mod d
      in if 2 * r < d then q
         else if 2 * r > d then q + 1
         else if even q then q else q + 1)"

definition flPos :: "int \<Rightarrow> int \<Rightarrow> rat" where
  "flPos p q =
     (let n = p * 2 ^ (bitLength q + 53);
          d = q * 2 ^ bitLength p;
          ulp = (if n \<ge> d * 2 ^ 53 then 2 * d else d)
      in of_int (roundHalfEven n ulp * ulp) / of_int (q * 2 ^ (bitLength q + 53)))"

definition fl :: "rat \<Rightarrow> rat" where
  "fl x =
     (case quotient_of x of
        (p, q) \<Rightarrow> if p = 0 then 0 else if p > 0 then flPos p q else - flPos (- p) q)"

section \<open>Load, selection and scaling decisions\<close>

definition getHealthyInstances :: "LB \<Rightarrow> ref list" where
  "getHealthyInstances s =
     filter (\<lambda>r. isHealthy (heap s r) \<and> status (heap s r) = Running) (instances s)"

text \<open>
  \<^verbatim>\<open>getInstanceLoad\<close>: the difference \<^verbatim>\<open>responseTime - 100\<close> is an integer; the quotient
  by 1000 and the final sum are rounded.
\<close>

definition getInstanceLoad :: "DockerInstance \<Rightarrow> rat" where
  "getInstanceLoad i =
     (let requestLoad = of_int (activeRequests i);
          responseTimeWeight = max 0 (fl (of_int (responseTime i - 100) / 1000))
      in fl (requestLoad + responseTimeWeight))"

text \<open>
  The load of the specification, \<open>active_requests + max(0, (response_time_ms - 100) / 1000)\<close>,
  in exact arithmetic.
\<close>

definition load_spec :: "DockerInstance \<Rightarrow> rat" where
  "load_spec i = of_int (activeRequests i) + max 0 ((of_int (responseTime i) - 100) / 1000)"

text \<open>
  Counters of ordinary size: at most \<^verbatim>\<open>2^31\<close> requests in flight and a response time of
  at most \<^verbatim>\<open>2^31\<close> ms.
\<close>

definition smallCounters :: "DockerInstance \<Rightarrow> bool" where
  "smallCounters i =
     (0 \<le> activeRequests i \<and> activeRequests i \<le> 2 ^ 31 \<and> responseTime i \<le> 2 ^ 31)"

text \<open>
  The average load of the healthy instances: \<^verbatim>\<open>reduce\<close> adds the loads from the left,
  starting from 0 and rounding every sum, and the quotient by the length is rounded. With
  no healthy instance the source divides zero by zero and obtains NaN, with which every
  comparison is false: that is \<open>None\<close>.
\<close>

definition avgLoad :: "LB \<Rightarrow> rat option" where
  "avgLoad s =
     (let healthy = getHealthyInstances s
      in if length healthy = 0 then None
         else Some (fl (foldl (\<lambda>sum r. fl (sum + getInstanceLoad (heap s r))) 0 healthy
                        / of_nat (length healthy))))"

text \<open>
  The average of the specification: the mean of \<open>load_spec\<close> over the healthy running
  workers in exact arithmetic, undefined (\<open>None\<close>) when there is none.
\<close>

definition avgLoad_spec :: "LB \<Rightarrow> rat option" where
  "avgLoad_spec s =
     (let healthy = getHealthyInstances s
      in if length healthy = 0 then None
         else Some (sum_list (map (\<lambda>r. load_spec (heap s r)) healthy)
                    / of_nat (length healthy)))"

definition shouldScaleUp :: "AppConfig \<Rightarrow> LB \<Rightarrow> bool" where
  "shouldScaleUp cfg s =
     (let healthy = getHealthyInstances s
      in if int (length healthy) \<ge> maxInstances cfg then False
         else if int (length healthy) < minInstances cfg then True
         else (case avgLoad s of None \<Rightarrow> False | Some a \<Rightarrow> a > scaleUpThreshold cfg))"

definition shouldScaleDown :: "AppConfig \<Rightarrow> int \<Rightarrow> LB \<Rightarrow> bool" where
  "shouldScaleDown cfg now s =
     (let healthy = getHealthyInstances s
      in if int (length healthy) \<le> minInstances cfg then False
         else
           (let hasIdleInstances =
                  list_ex (\<lambda>r. now - lastRequestTime (heap s r) > idleTimeout cfg
                               \<and> activeRequests (heap s r) = 0) healthy
            in (case avgLoad s of None \<Rightarrow> False | Some a \<Rightarrow> a < scaleDownThreshold cfg)
               \<and> hasIdleInstances))"

text \<open>
  \<^verbatim>\<open>pickInstance\<close>: \<^verbatim>\<open>reduce\<close> without an initial value starts from the first healthy
  instance and replaces the current minimum only by a strictly smaller load.
\<close>

definition pickInstance :: "LB \<Rightarrow> ref option" where
  "pickInstance s =
     (case getHealthyInstances s of
        [] \<Rightarrow> None
      | m # rest \<Rightarrow>
          Some (foldl (\<lambda>mn inst.
                         if getInstanceLoad (heap s inst) < getInstanceLoad (heap s mn)
                         then inst else mn) m rest))"

text \<open>
  \<^verbatim>\<open>autoScale\<close>. The candidate of a scale-down is the first element of the healthy
  instances without active requests, sorted by \<^verbatim>\<open>lastRequestTime\<close>; the sort of the
  language is stable, as is \<open>sort_key\<close>.
\<close>

datatype ScaleAction = ScaleUp | ScaleDown ref | NoAction

definition autoScale_action :: "AppConfig \<Rightarrow> int \<Rightarrow> LB \<Rightarrow> ScaleAction" where
  "autoScale_action cfg now s =
     (let healthy = getHealthyInstances s
      in if shouldScaleUp cfg s then ScaleUp
         else if shouldScaleDown cfg now s then
           (case sort_key (\<lambda>r. lastRequestTime (heap s r))
                   (filter (\<lambda>r. activeRequests (heap s r) = 0) healthy) of
              [] \<Rightarrow> NoAction
            | candidate # _ \<Rightarrow> ScaleDown candidate)
         else NoAction)"

definition autoScale :: "AppConfig \<Rightarrow> int \<Rightarrow> RemoveOutcome \<Rightarrow> LB \<Rightarrow> LB" where
  "autoScale cfg now oc s =
     (case autoScale_action cfg now s of
        ScaleUp \<Rightarrow> spawnInstance_begin s
      | ScaleDown candidate \<Rightarrow> removeInstance oc candidate s
      | NoAction \<Rightarrow> s)"

section \<open>The request path\<close>

datatype jvalue = JStr string | JNum int

text \<open>The options of the upstream \<^verbatim>\<open>http.request\<close> (the copied client headers are left out).\<close>

record ProxyOptions =
  hostname :: string
  upstreamPort :: int
  path :: string
  httpMethod :: string
  hostHeaderPort :: int
  timeout :: int

text \<open>
  What the synchronous part of \<^verbatim>\<open>handleRequest\<close> does besides updating the counters:
  it either answers the client itself, or opens the upstream request for the chosen
  instance and remembers \<^verbatim>\<open>startTime\<close>.
\<close>

datatype Dispatch =
  Rejected int "(string \<times> jvalue) list"
| Forwarded ref int ProxyOptions

definition SERVER_TIMEOUT :: int where
  "SERVER_TIMEOUT = 30000"

definition handleRequest :: "string \<Rightarrow> string \<Rightarrow> int \<Rightarrow> LB \<Rightarrow> Dispatch \<times> LB" where
  "handleRequest originalUrl reqMethod now s =
     (case pickInstance s of
        None \<Rightarrow>
          (Rejected 503
             [(''error'', JStr ''No healthy backend servers available''),
              (''instances'', JNum (int (length (instances s)))),
              (''healthy'', JNum (int (length (getHealthyInstances s))))], s)
      | Some instance \<Rightarrow>
          (let s1 = modify instance
                      (\<lambda>i. i\<lparr>activeRequests := activeRequests i + 1,
                              totalRequests := totalRequests i + 1,
                              lastRequestTime := now\<rparr>) s;
               startTime = now;
               p = port (heap s1 instance)
           in (Forwarded instance startTime
                 \<lparr>hostname = ''localhost'', upstreamPort = p, path = originalUrl,
                  httpMethod = reqMethod, hostHeaderPort = p, timeout = SERVER_TIMEOUT\<rparr>,
               s1)))"

text \<open>
  The three callbacks registered by \<^verbatim>\<open>handleRequest\<close> for the instance \<open>r\<close> it chose.
  The error and timeout callbacks answer the client only while no headers were sent;
  the timeout callback also destroys the upstream request.
\<close>

definition onProxyEnd :: "ref \<Rightarrow> int \<Rightarrow> int \<Rightarrow> LB \<Rightarrow> LB" where
  "onProxyEnd r startTime now s =
     modify r (\<lambda>i. i\<lparr>responseTime := now - startTime\<rparr>)
       (modify r (\<lambda>i. i\<lparr>activeRequests := max 0 (activeRequests i - 1)\<rparr>) s)"

definition onProxyError ::
  "ref \<Rightarrow> bool \<Rightarrow> LB \<Rightarrow> (int \<times> (string \<times> jvalue) list) option \<times> LB" where
  "onProxyError r headersSent s =
     (let s1 = modify r (\<lambda>i. i\<lparr>activeRequests := max 0 (activeRequests i - 1)\<rparr>) s
      in (if \<not> headersSent
          then Some (502, [(''error'', JStr ''Bad Gateway''),
                           (''message'', JStr ''Backend server error'')])
          else None, s1))"

definition onProxyTimeout ::
  "ref \<Rightarrow> bool \<Rightarrow> LB \<Rightarrow> (int \<times> (string \<times> jvalue) list) option \<times> LB" where
  "onProxyTimeout r headersSent s =
     (let s1 = modify r (\<lambda>i. i\<lparr>activeRequests := max 0 (activeRequests i - 1)\<rparr>) s
      in (if \<not> headersSent
          then Some (504, [(''error'', JStr ''Gateway Timeout''),
                           (''message'', JStr ''Backend server timeout'')])
          else None, s1))"

text \<open>
  The events that the runtime delivers for one upstream request, and the state after a
  sequence of them. \<open>hs\<close> tells whether the client's headers have been sent: the
  response callback sends them (\<^verbatim>\<open>res.writeHead\<close>), and so does every answer of the
  proxy itself.
\<close>

datatype ProxyEvent = ProxyResponse | ProxyEnd int | ProxyError | ProxyTimeout

fun proxyEvents :: "ref \<Rightarrow> int \<Rightarrow> ProxyEvent list \<Rightarrow> bool \<Rightarrow> LB \<Rightarrow> LB" where
  "proxyEvents r startTime [] hs s = s"
| "proxyEvents r startTime (ProxyResponse # es) hs s = proxyEvents r startTime es True s"
| "proxyEvents r startTime (ProxyEnd now # es) hs s =
     proxyEvents r startTime es hs (onProxyEnd r startTime now s)"
| "proxyEvents r startTime (ProxyError # es) hs s =
     (let (resp, s1) = onProxyError r hs s
      in proxyEvents r startTime es (case resp of None \<Rightarrow> hs | Some _ \<Rightarrow> True) s1)"
| "proxyEvents r startTime (ProxyTimeout # es) hs s =
     (let (resp, s1) = onProxyTimeout r hs s
      in proxyEvents r startTime es (case resp of None \<Rightarrow> hs | Some _ \<Rightarrow> True) s1)"

fun isProxyEnd :: "ProxyEvent \<Rightarrow> bool" where
  "isProxyEnd (ProxyEnd now) = True"
| "isProxyEnd e = False"

section \<open>Start-up and shutdown\<close>

text \<open>
  \<^verbatim>\<open>initialize\<close> starts \<^verbatim>\<open>minInstances\<close> activations of \<^verbatim>\<open>spawnInstance\<close>, each of which
  takes its port before it suspends.

  \<^verbatim>\<open>shutdown\<close> maps \<^verbatim>\<open>removeInstance\<close> over \<^verbatim>\<open>this.instances\<close>. \<^verbatim>\<open>map\<close> visits the
  indices below the length the array had at the start and reads the array as it is at
  each visit, and the call of \<^verbatim>\<open>removeInstance\<close> splices the visited element out before
  the next visit: \<open>shutdown_map ocs k n\<close> are the \<open>n\<close> visits from index \<open>k\<close> on. An index
  that has fallen off the shortened array is skipped. (The docker commands of the
  removals run concurrently afterwards; here each removal is completed at its visit.)
\<close>

definition initialize :: "AppConfig \<Rightarrow> LB \<Rightarrow> LB" where
  "initialize cfg s = ((spawnInstance_begin ^^ nat (minInstances cfg)) s)"

primrec shutdown_map :: "(ref \<Rightarrow> RemoveOutcome) \<Rightarrow> nat \<Rightarrow> nat \<Rightarrow> LB \<Rightarrow> LB" where
  "shutdown_map ocs k 0 s = s"
| "shutdown_map ocs k (Suc n) s =
     shutdown_map ocs (Suc k) n
       (if k < length (instances s)
        then removeInstance (ocs (instances s ! k)) (instances s ! k) s
        else s)"

definition shutdown :: "(ref \<Rightarrow> RemoveOutcome) \<Rightarrow> LB \<Rightarrow> LB" where
  "shutdown ocs s = shutdown_map ocs 0 (length (instances s)) s"

section \<open>Executions of the controller\<close>

text \<open>
  Each event is one uninterrupted piece of the program together with the inputs the
  environment supplies to it. Callbacks and resumptions name the object they were created
  for; they are ignored for a reference that was never allocated.
\<close>

datatype Event =
  EvInitialize
| EvSpawnResume int string "string option" int
| EvReadyStatus ref string
| EvReadyExpired ref RemoveOutcome
| EvProbe ref ProbeResult
| EvHealthCheckAll "(ref \<times> ProbeResult) list" int "(ref \<times> RemoveOutcome) list"
| EvAutoScale int RemoveOutcome
| EvRequest string string int
| EvProxyEnd ref int int
| EvProxyError ref bool
| EvProxyTimeout ref bool
| EvShutdown "(ref \<times> RemoveOutcome) list"

definition lookupOr :: "'b \<Rightarrow> ('a \<times> 'b) list \<Rightarrow> 'a \<Rightarrow> 'b" where
  "lookupOr d kvs k = (case map_of kvs k of None \<Rightarrow> d | Some v \<Rightarrow> v)"

definition failing :: RemoveOutcome where
  "failing = \<lparr>stopOk = False, rmOk = False\<rparr>"

fun step :: "AppConfig \<Rightarrow> LB \<Rightarrow> Event \<Rightarrow> LB" where
  "step cfg s EvInitialize = initialize cfg s"
| "step cfg s (EvSpawnResume p uuid out now) = spawnInstance_resume cfg p uuid out now s"
| "step cfg s (EvReadyStatus r st) =
     (if r < nextRef s then waitForInstanceReady_status r st s else s)"
| "step cfg s (EvReadyExpired r oc) =
     (if r < nextRef s then waitForInstanceReady_expired oc r s else s)"
| "step cfg s (EvProbe r pr) = (if r < nextRef s then checkInstanceHealth r pr s else s)"
| "step cfg s (EvHealthCheckAll probes now ocs) =
     healthCheckAll (lookupOr ProbeError probes) now (lookupOr failing ocs) s"
| "step cfg s (EvAutoScale now oc) = autoScale cfg now oc s"
| "step cfg s (EvRequest url m now) = snd (handleRequest url m now s)"
| "step cfg s (EvProxyEnd r startTime now) =
     (if r < nextRef s then onProxyEnd r startTime now s else s)"
| "step cfg s (EvProxyError r hs) = (if r < nextRef s then snd (onProxyError r hs s) else s)"
| "step cfg s (EvProxyTimeout r hs) =
     (if r < nextRef s then snd (onProxyTimeout r hs s) else s)"
| "step cfg s (EvShutdown ocs) = shutdown (lookupOr failing ocs) s"

definition run :: "AppConfig \<Rightarrow> Event list \<Rightarrow> LB" where
  "run cfg evs = foldl (step cfg) initLB evs"

inductive reachable :: "AppConfig \<Rightarrow> LB \<Rightarrow> bool" for cfg :: AppConfig where
  reach_init: "reachable cfg initLB"
| reach_step: "reachable cfg s \<Longrightarrow> reachable cfg (step cfg s e)"

section \<open>The subprocess variant (module/index.ts)\<close>

text \<open>
  The class \<^verbatim>\<open>LoadBalancer\<close> manages child processes instead of containers. Its
  instances have no \<^verbatim>\<open>status\<close> field; the handle of the child process is left out of
  the record. The names of this variant carry the suffix \<open>_P\<close>.
\<close>

record Instance =
  id_P :: string
  port_P :: int
  lastHealth_P :: int
  isHealthy_P :: bool
  activeRequests_P :: int
  totalRequests_P :: int
  lastRequestTime_P :: int
  responseTime_P :: int

record LoadBalancer =
  instances_P :: "ref list"
  heap_P :: "ref \<Rightarrow> Instance"
  nextRef_P :: ref
  nextPort_P :: int

definition modify_P :: "ref \<Rightarrow> (Instance \<Rightarrow> Instance) \<Rightarrow> LoadBalancer \<Rightarrow> LoadBalancer" where
  "modify_P r f s = s\<lparr>heap_P := (heap_P s)(r := f (heap_P s r))\<rparr>"

definition getNextPort_P :: "LoadBalancer \<Rightarrow> int \<times> LoadBalancer" where
  "getNextPort_P s = (nextPort_P s, s\<lparr>nextPort_P := nextPort_P s + 1\<rparr>)"

text \<open>\<^verbatim>\<open>spawnInstance\<close> up to its suspension in \<^verbatim>\<open>waitForInstanceReady\<close>.\<close>

definition spawnInstance_P :: "string \<Rightarrow> int \<Rightarrow> LoadBalancer \<Rightarrow> LoadBalancer" where
  "spawnInstance_P uuid now s =
     (let (p, s1) = getNextPort_P s;
          instance = \<lparr>id_P = uuid, port_P = p, lastHealth_P = now, isHealthy_P = False,
                      activeRequests_P = 0, totalRequests_P = 0, lastRequestTime_P = now,
                      responseTime_P = 0\<rparr>
      in s1\<lparr>instances_P := instances_P s1 @ [nextRef_P s1],
            heap_P := (heap_P s1)(nextRef_P s1 := instance),
            nextRef_P := Suc (nextRef_P s1)\<rparr>)"

definition removeInstance_P :: "ref \<Rightarrow> LoadBalancer \<Rightarrow> LoadBalancer" where
  "removeInstance_P r s =
     (let index = indexOf (instances_P s) r
      in if index > -1 then s\<lparr>instances_P := splice1 (instances_P s) index\<rparr> else s)"

definition checkInstanceHealth_P :: "ref \<Rightarrow> ProbeResult \<Rightarrow> LoadBalancer \<Rightarrow> LoadBalancer" where
  "checkInstanceHealth_P r pr s =
     (case pr of
        ProbeResponse code t0 now \<Rightarrow>
          (if code = 200
           then modify_P r (\<lambda>i. i\<lparr>lastHealth_P := now, isHealthy_P := True,
                                    responseTime_P := now - t0\<rparr>) s
           else modify_P r (\<lambda>i. i\<lparr>isHealthy_P := False\<rparr>) s)
      | ProbeError \<Rightarrow> modify_P r (\<lambda>i. i\<lparr>isHealthy_P := False\<rparr>) s
      | ProbeTimeout \<Rightarrow> modify_P r (\<lambda>i. i\<lparr>isHealthy_P := False\<rparr>) s)"

text \<open>One tick of \<^verbatim>\<open>healthCheckAll\<close> of this variant: the probes, and nothing after them.\<close>

definition healthCheckAll_P :: "(ref \<Rightarrow> ProbeResult) \<Rightarrow> LoadBalancer \<Rightarrow> LoadBalancer" where
  "healthCheckAll_P probes s =
     foldl (\<lambda>t r. checkInstanceHealth_P r (probes r) t) s (instances_P s)"

section \<open>Example configurations and states\<close>

definition demoCfg :: AppConfig where
  "demoCfg = \<lparr>dockerImage = ''bun-express-app:latest'', containerPort = 3000,
     minInstances = 1, maxInstances = 2, checkInterval = 5000, healthTimeout = 2000,
     scaleUpThreshold = 3, scaleDownThreshold = 1 / 2, idleTimeout = 30000,
     healthEndpoint = ''/health'', containerPrefix = ''my-app-lb''\<rparr>"

definition demoInstance ::
  "int \<Rightarrow> bool \<Rightarrow> Status \<Rightarrow> int \<Rightarrow> int \<Rightarrow> int \<Rightarrow> int \<Rightarrow> DockerInstance" where
  "demoInstance p h st act lastReq rt lastH =
     \<lparr>inst_id = ''0b5f6c2e-demo'', containerId = ''c0ffee'', port = p,
      containerName = ''my-app-lb-0b5f6c2e'', lastHealth = lastH, isHealthy = h,
      activeRequests = act, totalRequests = act, lastRequestTime = lastReq,
      responseTime = rt, status = st\<rparr>"

text \<open>
  Four workers: loads 1, 1/2 and 1/2 on the healthy running ones, and an unhealthy
  worker of load 0.
\<close>

definition demoPool :: LB where
  "demoPool =
     \<lparr>instances = [0, 1, 2, 3],
      heap = (\<lambda>_. blankInstance)
        (0 := demoInstance 5001 True Running 1 1000 100 1000,
         1 := demoInstance 5002 True Running 0 2000 600 1000,
         2 := demoInstance 5003 True Running 0 3000 600 1000,
         3 := demoInstance 5004 False Running 0 4000 0 1000),
      nextRef = 4, nextPort = 5005, spawning = [], dockerLog = []\<rparr>"

text \<open>
  Two healthy running workers whose exact loads are both 1.118: no request in flight and a
  response time of 1218 ms, one request in flight and a response time of 218 ms.
\<close>

definition demoTie :: LB where
  "demoTie =
     \<lparr>instances = [0, 1],
      heap = (\<lambda>_. blankInstance)
        (0 := demoInstance 5001 True Running 0 1000 1218 1000,
         1 := demoInstance 5002 True Running 1 1000 218 1000),
      nextRef = 2, nextPort = 5003, spawning = [], dockerLog = []\<rparr>"

text \<open>
  Three idle healthy running workers with response times 101, 1101 and 598 ms, whose exact
  loads 0.001, 1.001 and 0.498 have the mean 0.5, under the default bounds
  \<^verbatim>\<open>minInstances = 2\<close> and \<^verbatim>\<open>maxInstances = 10\<close>.
\<close>

definition demoAvgCfg :: AppConfig where
  "demoAvgCfg = demoCfg\<lparr>minInstances := 2, maxInstances := 10\<rparr>"

definition demoAvg :: LB where
  "demoAvg =
     \<lparr>instances = [0, 1, 2],
      heap = (\<lambda>_. blankInstance)
        (0 := demoInstance 5001 True Running 0 1000 101 39000,
         1 := demoInstance 5002 True Running 0 2000 1101 39000,
         2 := demoInstance 5003 True Running 0 3000 598 39000),
      nextRef = 3, nextPort = 5004, spawning = [], dockerLog = []\<rparr>"

text \<open>Both docker commands of a removal succeed.\<close>

definition ok :: RemoveOutcome where
  "ok = \<lparr>stopOk = True, rmOk = True\<rparr>"

text \<open>
  Start-up with \<^verbatim>\<open>minInstances = 1\<close>, then two ticks of \<^verbatim>\<open>autoScale\<close> while the containers
  created so far are still starting.
\<close>

definition demoTrace :: "Event list" where
  "demoTrace =
     [EvInitialize,
      EvSpawnResume 5001 ''3f2a1b4c-0001'' (Some ''aaaabbbbcccc0001'') 1000,
      EvAutoScale 6000 ok,
      EvSpawnResume 5002 ''3f2a1b4c-0002'' (Some ''aaaabbbbcccc0002'') 7000,
      EvAutoScale 11000 ok,
      EvSpawnResume 5003 ''3f2a1b4c-0003'' (Some ''aaaabbbbcccc0003'') 12000]"

text \<open>
  One worker becomes healthy, one request is dispatched to it, the request times out and
  the error event follows the timeout.
\<close>

definition demoTimeoutTrace :: "Event list" where
  "demoTimeoutTrace =
     [EvInitialize,
      EvSpawnResume 5001 ''3f2a1b4c-0001'' (Some ''aaaabbbbcccc0001'') 1000,
      EvReadyStatus 0 ''running'',
      EvProbe 0 (ProbeResponse 200 1500 1520),
      EvRequest ''/api/user'' ''GET'' 2000,
      EvProxyTimeout 0 False,
      EvProxyError 0 True]"

text \<open>
  Two requests to the one worker; the first is still in flight when the second times
  out and the error event follows the timeout.
\<close>

definition demoDoubleTrace :: "Event list" where
  "demoDoubleTrace =
     [EvInitialize,
      EvSpawnResume 5001 ''3f2a1b4c-0001'' (Some ''aaaabbbbcccc0001'') 1000,
      EvReadyStatus 0 ''running'',
      EvProbe 0 (ProbeResponse 200 1500 1520),
      EvRequest ''/api/stream'' ''GET'' 4000,
      EvRequest ''/api/user'' ''GET'' 5000,
      EvProxyTimeout 0 False,
      EvProxyError 0 True]"

text \<open>
  Two idle healthy workers (\<open>demoIdle\<close>); one healthy worker with a request in flight
  (\<open>demoBusy\<close>); an unhealthy worker and a healthy one that is still starting
  (\<open>demoDown\<close>); a pool of the subprocess variant whose only worker is unhealthy
  (\<open>demoProc\<close>).
\<close>

definition demoIdle :: LB where
  "demoIdle =
     \<lparr>instances = [0, 1],
      heap = (\<lambda>_. blankInstance)
        (0 := demoInstance 5001 True Running 0 1000 80 39000,
         1 := demoInstance 5002 True Running 0 500 90 39000),
      nextRef = 2, nextPort = 5003, spawning = [], dockerLog = []\<rparr>"

definition demoBusy :: LB where
  "demoBusy =
     \<lparr>instances = [0],
      heap = (\<lambda>_. blankInstance)(0 := demoInstance 5001 True Running 1 1000 80 1000),
      nextRef = 1, nextPort = 5002, spawning = [], dockerLog = []\<rparr>"

definition demoDown :: LB where
  "demoDown =
     \<lparr>instances = [0, 1],
      heap = (\<lambda>_. blankInstance)
        (0 := demoInstance 5001 False Running 2 1000 80 1000,
         1 := demoInstance 5002 True Starting 0 500 90 1000),
      nextRef = 2, nextPort = 5003, spawning = [], dockerLog = []\<rparr>"

definition demoProc :: LoadBalancer where
  "demoProc =
     \<lparr>instances_P = [0],
      heap_P = (\<lambda>_. \<lparr>id_P = ''7c9e6679-demo'', port_P = 5001, lastHealth_P = 0,
                      isHealthy_P = False, activeRequests_P = 0, totalRequests_P = 0,
                      lastRequestTime_P = 0, responseTime_P = 0\<rparr>),
      nextRef_P = 1, nextPort_P = 5002\<rparr>"

text \<open>The definitions unfolded to run the model on a concrete input.\<close>

lemmas eval_defs =
  run_def initLB_def blankInstance_def demoCfg_def initialize_def spawnInstance_begin_def
  getNextPort_def spawnInstance_resume_def createContainer_def autoScale_def
  autoScale_action_def shouldScaleUp_def shouldScaleDown_def getHealthyInstances_def
  avgLoad_def getInstanceLoad_def removeInstance_def removeContainer_def logCmd_def
  modify_def handleRequest_def pickInstance_def onProxyEnd_def onProxyError_def
  onProxyTimeout_def checkInstanceHealth_def waitForInstanceReady_status_def
  waitForInstanceReady_expired_def healthCheckAll_def shutdown_def lookupOr_def
  failing_def splice1_def Let_def demoInstance_def ok_def

section \<open>Invariants of the controller state\<close>

text \<open>
  \<open>sameShape s s'\<close>: the step from \<open>s\<close> to \<open>s'\<close> allocates nothing, leaves every port
  alone and keeps non-negative counters non-negative. \<open>wf s\<close>: the pool holds pairwise
  different allocated objects, and the ports of the pool and of the pending spawns are
  pairwise different and below the port counter.
\<close>

definition sameShape :: "LB \<Rightarrow> LB \<Rightarrow> bool" where
  "sameShape s s' =
     (nextRef s' = nextRef s \<and> nextPort s' = nextPort s \<and> spawning s' = spawning s
      \<and> (\<forall>x. port (heap s' x) = port (heap s x))
      \<and> (\<forall>x. 0 \<le> activeRequests (heap s x) \<longrightarrow> 0 \<le> activeRequests (heap s' x)))"


section \<open>Arrays: \<^verbatim>\<open>indexOf\<close> followed by \<^verbatim>\<open>splice\<close> removes the first occurrence\<close>

lemma indexOf_ge: "- 1 \<le> indexOf xs x"
  by (induction xs) (auto simp: Let_def)

lemma indexOf_mem: "(indexOf xs x > - 1) = (x \<in> set xs)"
proof (induction xs)
  case Nil
  show ?case by simp
next
  case (Cons y ys)
  then show ?case using indexOf_ge[of ys x] by (auto simp: Let_def)
qed

lemma indexOf_absent: "x \<notin> set xs \<Longrightarrow> indexOf xs x = - 1"
  using indexOf_mem[of xs x] indexOf_ge[of xs x] by linarith

lemma splice1_indexOf: "x \<in> set xs \<Longrightarrow> splice1 xs (indexOf xs x) = remove1 x xs"
proof (induction xs)
  case Nil
  then show ?case by simp
next
  case (Cons y ys)
  show ?case
  proof (cases "y = x")
    case True
    then show ?thesis by (simp add: splice1_def)
  next
    case False
    then have m: "x \<in> set ys" using Cons.prems by simp
    then have g: "0 \<le> indexOf ys x" using indexOf_mem[of ys x] by linarith
    then have "nat (indexOf ys x + 1) = Suc (nat (indexOf ys x))" by linarith
    then show ?thesis using False Cons.IH[OF m] g
      by (simp add: splice1_def Let_def)
  qed
qed

lemma removeContainer_fields:
  "instances (removeContainer oc r s) = instances s"
  "nextRef (removeContainer oc r s) = nextRef s"
  "nextPort (removeContainer oc r s) = nextPort s"
  "spawning (removeContainer oc r s) = spawning s"
  by (simp_all add: removeContainer_def Let_def modify_def logCmd_def)

lemma removeContainer_heap_other:
  "x \<noteq> r \<Longrightarrow> heap (removeContainer oc r s) x = heap s x"
  by (simp add: removeContainer_def Let_def modify_def logCmd_def)

lemma removeContainer_heap_fields:
  "port (heap (removeContainer oc r s) x) = port (heap s x)"
  "activeRequests (heap (removeContainer oc r s) x) = activeRequests (heap s x)"
  "totalRequests (heap (removeContainer oc r s) x) = totalRequests (heap s x)"
  "lastRequestTime (heap (removeContainer oc r s) x) = lastRequestTime (heap s x)"
  "responseTime (heap (removeContainer oc r s) x) = responseTime (heap s x)"
  "isHealthy (heap (removeContainer oc r s) x) = isHealthy (heap s x)"
  "lastHealth (heap (removeContainer oc r s) x) = lastHealth (heap s x)"
  "containerId (heap (removeContainer oc r s) x) = containerId (heap s x)"
  by (simp_all add: removeContainer_def Let_def modify_def logCmd_def)

lemma removeInstance_instances:
  "instances (removeInstance oc r s) = remove1 r (instances s)"
proof (cases "r \<in> set (instances s)")
  case True
  then show ?thesis
    using indexOf_mem[of "instances s" r]
    by (simp add: removeInstance_def Let_def removeContainer_fields splice1_indexOf)
next
  case False
  then show ?thesis
    using indexOf_mem[of "instances s" r]
    by (simp add: removeInstance_def Let_def removeContainer_fields remove1_idem)
qed

lemma removeInstance_fields:
  "nextRef (removeInstance oc r s) = nextRef s"
  "nextPort (removeInstance oc r s) = nextPort s"
  "spawning (removeInstance oc r s) = spawning s"
  by (simp_all add: removeInstance_def Let_def removeContainer_fields)

lemma removeInstance_heap_other:
  "x \<noteq> r \<Longrightarrow> heap (removeInstance oc r s) x = heap s x"
  by (simp add: removeInstance_def Let_def removeContainer_heap_other)

lemma removeInstance_heap_fields:
  "port (heap (removeInstance oc r s) x) = port (heap s x)"
  "activeRequests (heap (removeInstance oc r s) x) = activeRequests (heap s x)"
  "totalRequests (heap (removeInstance oc r s) x) = totalRequests (heap s x)"
  "lastRequestTime (heap (removeInstance oc r s) x) = lastRequestTime (heap s x)"
  "responseTime (heap (removeInstance oc r s) x) = responseTime (heap s x)"
  "isHealthy (heap (removeInstance oc r s) x) = isHealthy (heap s x)"
  "lastHealth (heap (removeInstance oc r s) x) = lastHealth (heap s x)"
  "containerId (heap (removeInstance oc r s) x) = containerId (heap s x)"
  by (simp_all add: removeInstance_def Let_def removeContainer_heap_fields)

section \<open>Rounding\<close>

text \<open>
  The bit length brackets a positive integer between two powers of two, rounding to a
  multiple moves by at most half the unit, and so \<open>fl\<close> changes a number by at most the
  \<^verbatim>\<open>2^-53\<close>-th part of it and keeps its sign.
\<close>

lemma bitLength_upper: "0 < n \<Longrightarrow> n < 2 ^ bitLength n"
proof (induction n rule: bitLength.induct)
  case (1 n)
  show ?case
  proof (cases "n div 2 \<le> 0")
    case True
    then have "n = 1" using "1.prems" by linarith
    then show ?thesis by (simp add: bitLength.simps)
  next
    case False
    then have "n div 2 < 2 ^ bitLength (n div 2)" using "1.IH" "1.prems" by simp
    then have "n < 2 * 2 ^ bitLength (n div 2)" by linarith
    then show ?thesis using "1.prems" by (subst bitLength.simps) simp
  qed
qed

lemma bitLength_lower: "0 < n \<Longrightarrow> 2 ^ bitLength n \<le> 2 * n"
proof (induction n rule: bitLength.induct)
  case (1 n)
  show ?case
  proof (cases "n div 2 \<le> 0")
    case True
    then have "n = 1" using "1.prems" by linarith
    then show ?thesis by (simp add: bitLength.simps)
  next
    case False
    then have "2 ^ bitLength (n div 2) \<le> 2 * (n div 2)" using "1.IH" "1.prems" by simp
    then have "2 * 2 ^ bitLength (n div 2) \<le> 2 * n" by linarith
    then show ?thesis using "1.prems" by (subst bitLength.simps) simp
  qed
qed

lemma roundHalfEven_near:
  assumes "0 < d"
  shows "2 * \<bar>roundHalfEven n d * d - n\<bar> \<le> d"
proof -
  define q where "q = n div d"
  define r where "r = n mod d"
  have n: "n = q * d + r" by (simp add: q_def r_def)
  have r: "0 \<le> r" "r < d" using assms by (simp_all add: r_def)
  have a: "\<bar>q * d - n\<bar> = r" using n r by simp
  have b: "\<bar>(q + 1) * d - n\<bar> = d - r" using n r by (simp add: algebra_simps)
  show ?thesis
    unfolding roundHalfEven_def Let_def q_def[symmetric] r_def[symmetric]
    using a b r by auto
qed

lemma roundHalfEven_nonneg: "0 < d \<Longrightarrow> 0 \<le> n \<Longrightarrow> 0 \<le> roundHalfEven n d"
  by (auto simp: roundHalfEven_def Let_def pos_imp_zdiv_nonneg_iff)

lemma flPos_near:
  assumes p: "0 < p" and q: "0 < q"
  shows "\<bar>flPos p q - of_int p / of_int q\<bar> * 2 ^ 53 \<le> of_int p / of_int q"
    and "0 \<le> flPos p q"
proof -
  define n where "n = p * 2 ^ (bitLength q + 53)"
  define d where "d = q * 2 ^ bitLength p"
  define ulp where "ulp = (if n \<ge> d * 2 ^ 53 then 2 * d else d)"
  define m where "m = roundHalfEven n ulp"
  define Q where "Q = q * 2 ^ (bitLength q + 53)"
  have f: "flPos p q = of_int (m * ulp) / of_int Q"
    by (simp add: flPos_def Let_def n_def d_def ulp_def m_def Q_def)
  have npos: "0 < n" using p by (simp add: n_def)
  have dpos: "0 < d" using q by (simp add: d_def)
  have upos: "0 < ulp" using dpos by (simp add: ulp_def)
  have Qpos: "0 < Q" using q by (simp add: Q_def)
  have x: "(of_int p :: rat) / of_int q = of_int n / of_int Q"
    using q by (simp add: n_def Q_def)
  have big: "ulp * 2 ^ 52 \<le> n"
  proof (cases "n \<ge> d * 2 ^ 53")
    case True
    then show ?thesis by (simp add: ulp_def)
  next
    case False
    have "q * 2 ^ bitLength p \<le> q * (2 * p)"
      by (rule mult_left_mono[OF bitLength_lower[OF p]]) (use q in simp)
    then have "q * 2 ^ bitLength p * 2 ^ 52 \<le> q * (2 * p) * 2 ^ 52"
      by (rule mult_right_mono) simp
    then have "d * 2 ^ 52 \<le> q * (2 * p) * 2 ^ 52"
      by (simp only: d_def)
    also have "\<dots> = p * (q * 2 ^ 53)" by simp
    also have "\<dots> \<le> p * (2 ^ bitLength q * 2 ^ 53)"
    proof (rule mult_left_mono)
      have "q \<le> 2 ^ bitLength q" using bitLength_upper[OF q] by simp
      then show "q * 2 ^ 53 \<le> 2 ^ bitLength q * 2 ^ 53" by (rule mult_right_mono) simp
      show "0 \<le> p" using p by simp
    qed
    also have "\<dots> = n" by (simp add: n_def power_add)
    finally show ?thesis using False by (simp add: ulp_def)
  qed
  have near: "2 * \<bar>m * ulp - n\<bar> \<le> ulp"
    unfolding m_def by (rule roundHalfEven_near[OF upos])
  have "2 * \<bar>m * ulp - n\<bar> * 2 ^ 52 \<le> ulp * 2 ^ 52"
    using near by (simp add: mult_right_mono)
  then have i: "\<bar>m * ulp - n\<bar> * 2 ^ 53 \<le> n" using big by simp
  have "\<bar>flPos p q - of_int p / of_int q\<bar> = \<bar>of_int (m * ulp) - of_int n\<bar> / of_int Q"
    unfolding f x using Qpos by (simp add: diff_divide_distrib[symmetric] abs_divide)
  also have "\<dots> = of_int \<bar>m * ulp - n\<bar> / of_int Q" by simp
  finally have e: "\<bar>flPos p q - of_int p / of_int q\<bar> * 2 ^ 53
                     = of_int (\<bar>m * ulp - n\<bar> * 2 ^ 53) / of_int Q"
    by simp
  have "(of_int (\<bar>m * ulp - n\<bar> * 2 ^ 53) :: rat) \<le> of_int n"
    using i by (simp only: of_int_le_iff)
  then have "(of_int (\<bar>m * ulp - n\<bar> * 2 ^ 53) :: rat) / of_int Q \<le> of_int n / of_int Q"
    using Qpos by (simp add: divide_right_mono)
  then have "\<bar>flPos p q - of_int p / of_int q\<bar> * 2 ^ 53 \<le> of_int n / of_int Q"
    by (simp only: e)
  then show "\<bar>flPos p q - of_int p / of_int q\<bar> * 2 ^ 53 \<le> of_int p / of_int q"
    by (simp only: x)
  have "0 \<le> m" unfolding m_def using roundHalfEven_nonneg[OF upos] npos by simp
  then have "0 \<le> m * ulp" using upos by simp
  then have "(0::rat) \<le> of_int (m * ulp)" by (simp only: of_int_0_le_iff)
  moreover have "(0::rat) < of_int Q" using Qpos by (simp only: of_int_0_less_iff)
  ultimately show "0 \<le> flPos p q" unfolding f by (rule divide_nonneg_pos)
qed

lemma fl_near: "\<bar>fl x - x\<bar> * 2 ^ 53 \<le> \<bar>x\<bar>"
proof -
  obtain p q where pq: "quotient_of x = (p, q)" by (cases "quotient_of x")
  have q: "0 < q" using pq by (rule quotient_of_denom_pos)
  have x: "x = of_int p / of_int q" using pq by (rule quotient_of_div)
  consider "p = 0" | "0 < p" | "p < 0" by linarith
  then show ?thesis
  proof cases
    case 1
    then show ?thesis using x by (simp add: fl_def pq)
  next
    case 2
    then have f: "fl x = flPos p q" by (simp add: fl_def pq)
    have x0: "0 \<le> x" using 2 q x by simp
    from flPos_near(1)[OF 2 q] have "\<bar>flPos p q - x\<bar> * 2 ^ 53 \<le> x"
      by (simp only: x)
    then show ?thesis using f x0 by simp
  next
    case 3
    then have f: "fl x = - flPos (- p) q" by (simp add: fl_def pq)
    have np: "0 < - p" using 3 by simp
    have xn: "x \<le> 0" using 3 q x by (simp add: divide_nonpos_pos)
    have mx: "of_int (- p) / of_int q = - x" unfolding x by simp
    from flPos_near(1)[OF np q] have "\<bar>flPos (- p) q - (- x)\<bar> * 2 ^ 53 \<le> - x"
      by (simp only: mx)
    moreover have "\<bar>fl x - x\<bar> = \<bar>flPos (- p) q - (- x)\<bar>"
      unfolding f by (simp add: abs_minus_commute add.commute)
    ultimately show ?thesis using xn by simp
  qed
qed

lemma fl_nonneg: "0 \<le> x \<Longrightarrow> 0 \<le> fl x"
proof -
  assume x0: "0 \<le> x"
  obtain p q where pq: "quotient_of x = (p, q)" by (cases "quotient_of x")
  have q: "0 < q" using pq by (rule quotient_of_denom_pos)
  have x: "x = of_int p / of_int q" using pq by (rule quotient_of_div)
  have "0 \<le> p" using x0 x q by (simp add: zero_le_divide_iff)
  then consider "p = 0" | "0 < p" by linarith
  then show ?thesis
  proof cases
    case 1
    then show ?thesis by (simp add: fl_def pq)
  next
    case 2
    then show ?thesis using flPos_near(2)[OF 2 q] by (simp add: fl_def pq)
  qed
qed

lemma fl_nonpos: "x \<le> 0 \<Longrightarrow> fl x \<le> 0"
proof -
  assume x0: "x \<le> 0"
  obtain p q where pq: "quotient_of x = (p, q)" by (cases "quotient_of x")
  have q: "0 < q" using pq by (rule quotient_of_denom_pos)
  have x: "x = of_int p / of_int q" using pq by (rule quotient_of_div)
  have "p \<le> 0" using x0 x q by (simp add: divide_le_0_iff)
  then consider "p = 0" | "p < 0" by linarith
  then show ?thesis
  proof cases
    case 1
    then show ?thesis by (simp add: fl_def pq)
  next
    case 2
    then have np: "0 < - p" by simp
    show ?thesis using flPos_near(2)[OF np q] 2 by (simp add: fl_def pq)
  qed
qed

text \<open>Some roundings: 1/10, 1/3, a tie that goes down to the even neighbour and one that goes up.\<close>

lemma fl_examples:
  "fl (1 / 10) = 3602879701896397 / 36028797018963968"
  "fl (1 / 3) = 6004799503160661 / 18014398509481984"
  "fl (2 ^ 53 + 1) = 2 ^ 53"
  "fl (2 ^ 53 + 3) = 2 ^ 53 + 4"
  "fl (- (1 / 10)) = - (3602879701896397 / 36028797018963968)"
  by code_simp+

text \<open>
  The exact load is a whole number of thousandths, and for counters of ordinary size the
  computed load is within 1/4000 of it: the computed loads order two workers as their
  exact loads do, whenever the exact loads differ.
\<close>

lemma load_spec_thousandths:
  "load_spec i = of_int (1000 * activeRequests i + max 0 (responseTime i - 100)) / 1000"
proof (cases "responseTime i \<le> 100")
  case True
  then have "(of_int (responseTime i) - 100) / (1000::rat) \<le> 0"
    by (simp add: divide_le_0_iff)
  then show ?thesis using True by (simp add: load_spec_def max_def)
next
  case False
  then have "(0::rat) \<le> (of_int (responseTime i) - 100) / 1000" by simp
  then show ?thesis using False by (simp add: load_spec_def max_def add_divide_distrib)
qed

lemma getInstanceLoad_near:
  assumes "smallCounters i"
  shows "\<bar>getInstanceLoad i - load_spec i\<bar> \<le> 1 / 4000"
proof -
  define a :: rat where "a = of_int (activeRequests i)"
  define y :: rat where "y = of_int (responseTime i - 100) / 1000"
  define w where "w = max 0 y"
  define W where "W = max 0 (fl y)"
  have C: "getInstanceLoad i = fl (a + W)"
    by (simp add: getInstanceLoad_def Let_def a_def W_def y_def)
  have L: "load_spec i = a + w"
    by (simp add: load_spec_def a_def w_def y_def)
  have a0: "0 \<le> a"
    using assms unfolding smallCounters_def a_def by simp
  have "(of_int (activeRequests i) :: rat) \<le> of_int (2 ^ 31)"
    using assms unfolding smallCounters_def by (simp only: of_int_le_iff)
  then have a1: "a \<le> 2 ^ 31" unfolding a_def by simp
  have "responseTime i - 100 \<le> 2 ^ 31"
    using assms unfolding smallCounters_def by simp
  then have "(of_int (responseTime i - 100) :: rat) \<le> of_int (2 ^ 31)"
    by (simp only: of_int_le_iff)
  then have "(of_int (responseTime i - 100) :: rat) \<le> 2 ^ 31" by simp
  then have "(of_int (responseTime i - 100) :: rat) / 1000 \<le> 2 ^ 31 / 1000"
    by (rule divide_right_mono) simp
  then have y1: "y \<le> 2 ^ 22" unfolding y_def by simp
  have w0: "0 \<le> w" and w1: "w \<le> 2 ^ 22" using y1 by (simp_all add: w_def)
  have W0: "0 \<le> W" by (simp add: W_def)
  have Ww: "\<bar>W - w\<bar> * 2 ^ 53 \<le> w"
  proof (cases "y \<le> 0")
    case True
    then have "fl y \<le> 0" by (rule fl_nonpos)
    then show ?thesis using True by (simp add: W_def w_def max_def)
  next
    case False
    then have "0 \<le> fl y" using fl_nonneg[of y] by simp
    then have "W = fl y" "w = y" using False by (simp_all add: W_def w_def max_def)
    then show ?thesis using fl_near[of y] False by simp
  qed
  then have "\<bar>W - w\<bar> * 2 ^ 53 \<le> 2 ^ 22" using w1 by linarith
  then have "\<bar>W - w\<bar> \<le> 1" by simp
  then have W1: "W \<le> 2 ^ 22 + 1" using w1 by linarith
  have "\<bar>fl (a + W) - (a + W)\<bar> * 2 ^ 53 \<le> \<bar>a + W\<bar>" by (rule fl_near)
  then have Cn: "\<bar>fl (a + W) - (a + W)\<bar> * 2 ^ 53 \<le> 2 ^ 31 + 2 ^ 22 + 1"
    using a0 a1 W0 W1 by linarith
  define e1 where "e1 = \<bar>fl (a + W) - (a + W)\<bar>"
  define e2 where "e2 = \<bar>W - w\<bar>"
  define e where "e = \<bar>fl (a + W) - (a + w)\<bar>"
  have tri: "e \<le> e1 + e2" unfolding e_def e1_def e2_def by linarith
  have b1: "e1 * 2 ^ 53 \<le> 2151677953" using Cn unfolding e1_def by simp
  have b2: "e2 * 2 ^ 53 \<le> 4194304" using Ww w1 unfolding e2_def by simp
  have "e * 2 ^ 53 \<le> (e1 + e2) * 2 ^ 53" using tri by (rule mult_right_mono) simp
  also have "\<dots> = e1 * 2 ^ 53 + e2 * 2 ^ 53" by (rule distrib_right)
  also have "\<dots> \<le> 2151677953 + 4194304" using b1 b2 by (rule add_mono)
  finally have "e * 2 ^ 53 \<le> 2155872257" by simp
  then have "e \<le> 1 / 4000" by simp
  then show ?thesis unfolding C L e_def .
qed

lemma getInstanceLoad_strict_mono:
  assumes "smallCounters i" "smallCounters j" "load_spec i < load_spec j"
  shows "getInstanceLoad i < getInstanceLoad j"
proof -
  define ni where "ni = 1000 * activeRequests i + max 0 (responseTime i - 100)"
  define nj where "nj = 1000 * activeRequests j + max 0 (responseTime j - 100)"
  have li: "load_spec i = of_int ni / 1000" and lj: "load_spec j = of_int nj / 1000"
    by (simp_all only: load_spec_thousandths ni_def nj_def)
  have "(of_int ni :: rat) / 1000 < of_int nj / 1000"
    using assms(3) by (simp only: li lj)
  then have "ni < nj" by simp
  then have "ni + 1 \<le> nj" by linarith
  then have "(of_int (ni + 1) :: rat) \<le> of_int nj" by (simp only: of_int_le_iff)
  then have "(of_int ni + 1 :: rat) \<le> of_int nj" by simp
  then have "(of_int ni + 1 :: rat) / 1000 \<le> of_int nj / 1000"
    by (rule divide_right_mono) simp
  then have "(of_int ni :: rat) / 1000 + 1 / 1000 \<le> of_int nj / 1000"
    by (simp only: add_divide_distrib)
  then have "load_spec i + 1 / 1000 \<le> load_spec j"
    by (simp only: li lj)
  then show ?thesis
    using getInstanceLoad_near[OF assms(1)] getInstanceLoad_near[OF assms(2)] by linarith
qed

section \<open>Selection of the least loaded worker\<close>

text \<open>
  The fold of \<^verbatim>\<open>pickInstance\<close> returns the first element of least measure, for any
  totally ordered measure.
\<close>

lemma foldl_least:
  fixes f :: "'a \<Rightarrow> 'b::linorder"
  defines "g \<equiv> (\<lambda>mn i. if f i < f mn then i else mn)"
  shows "\<exists>pre post. m # rest = pre @ foldl g m rest # post
      \<and> (\<forall>y\<in>set pre. f (foldl g m rest) < f y)
      \<and> (\<forall>y\<in>set post. f (foldl g m rest) \<le> f y)"
proof (induction rest rule: rev_induct)
  case Nil
  show ?case by (rule exI[of _ "[]"], rule exI[of _ "[]"]) simp
next
  case (snoc x xs)
  let ?w = "foldl g m xs"
  from snoc obtain pre post where d: "m # xs = pre @ ?w # post"
    and p1: "\<forall>y\<in>set pre. f ?w < f y" and p2: "\<forall>y\<in>set post. f ?w \<le> f y"
    by blast
  show ?case
  proof (cases "f x < f ?w")
    case True
    then have r: "foldl g m (xs @ [x]) = x" by (simp add: g_def)
    have "m # xs @ [x] = (pre @ ?w # post) @ x # []" using d by simp
    moreover have "\<forall>y\<in>set (pre @ ?w # post). f x < f y"
      using True p1 p2 by fastforce
    ultimately show ?thesis unfolding r
      by (intro exI[of _ "pre @ ?w # post"] exI[of _ "[]"]) simp
  next
    case False
    then have r: "foldl g m (xs @ [x]) = ?w" by (simp add: g_def)
    have "m # xs @ [x] = pre @ ?w # (post @ [x])" using d by simp
    moreover have "\<forall>y\<in>set (post @ [x]). f ?w \<le> f y" using False p2 by auto
    ultimately show ?thesis unfolding r using p1
      by (intro exI[of _ pre] exI[of _ "post @ [x]"]) simp
  qed
qed

lemma filter_eq_appendD:
  "filter P xs = pre @ w # post \<Longrightarrow>
     \<exists>us vs. xs = us @ w # vs \<and> filter P us = pre \<and> filter P vs = post"
proof (induction xs arbitrary: pre)
  case Nil
  then show ?case by simp
next
  case (Cons x xs)
  show ?case
  proof (cases "P x")
    case False
    with Cons.prems have "filter P xs = pre @ w # post" by simp
    from Cons.IH[OF this] obtain us vs where
      "xs = us @ w # vs" "filter P us = pre" "filter P vs = post" by blast
    then have "x # xs = (x # us) @ w # vs \<and> filter P (x # us) = pre \<and> filter P vs = post"
      using False by simp
    then show ?thesis by blast
  next
    case True
    then have e: "x # filter P xs = pre @ w # post" using Cons.prems by simp
    show ?thesis
    proof (cases pre)
      case Nil
      then have "x # xs = [] @ w # xs \<and> filter P [] = pre \<and> filter P xs = post"
        using e by simp
      then show ?thesis by blast
    next
      case (Cons y pre')
      then have y: "y = x" and "filter P xs = pre' @ w # post" using e by simp_all
      from Cons.IH[OF this(2)] obtain us vs where
        "xs = us @ w # vs" "filter P us = pre'" "filter P vs = post" by blast
      then have "x # xs = (x # us) @ w # vs \<and> filter P (x # us) = pre \<and> filter P vs = post"
        using True Cons y by simp
      then show ?thesis by blast
    qed
  qed
qed

lemma filter_split_index:
  assumes "filter P xs = pre @ w # post"
  shows "\<exists>k<length xs. xs ! k = w \<and> (\<forall>j<k. P (xs ! j) \<longrightarrow> xs ! j \<in> set pre)"
proof -
  from filter_eq_appendD[OF assms] obtain us vs where xs: "xs = us @ w # vs"
    and u: "filter P us = pre" by blast
  have k: "length us < length xs" using xs by simp
  have at: "xs ! length us = w" using xs by simp
  have "\<forall>j<length us. P (xs ! j) \<longrightarrow> xs ! j \<in> set pre"
  proof (intro allI impI)
    fix j assume j: "j < length us" and pj: "P (xs ! j)"
    have e: "xs ! j = us ! j" using xs j by (simp add: nth_append)
    then have "us ! j \<in> set (filter P us)" using j pj by simp
    then show "xs ! j \<in> set pre" using e u by simp
  qed
  then show ?thesis using k at by blast
qed

text \<open>
  Claim C1, as the code has it. Whenever some worker of the pool is healthy and running,
  \<^verbatim>\<open>pickInstance\<close> returns a worker of the pool that is healthy and running, whose load
  as \<^verbatim>\<open>getInstanceLoad\<close> computes it in double arithmetic is at most the computed load of
  every healthy running worker, and every healthy running worker inserted before it has
  a strictly larger computed load: among the workers of minimal computed load it is the
  one inserted first. For counters of ordinary size its exact load is minimal as well.
\<close>

theorem pickInstance_least_loaded:
  assumes "\<exists>r\<in>set (instances s). isHealthy (heap s r) \<and> status (heap s r) = Running"
  shows "\<exists>w. pickInstance s = Some w
           \<and> w \<in> set (instances s) \<and> isHealthy (heap s w) \<and> status (heap s w) = Running
           \<and> (\<forall>v\<in>set (instances s). isHealthy (heap s v) \<and> status (heap s v) = Running
                 \<longrightarrow> getInstanceLoad (heap s w) \<le> getInstanceLoad (heap s v))
           \<and> (\<exists>k<length (instances s). instances s ! k = w
                 \<and> (\<forall>j<k. isHealthy (heap s (instances s ! j))
                           \<and> status (heap s (instances s ! j)) = Running
                       \<longrightarrow> getInstanceLoad (heap s w)
                             < getInstanceLoad (heap s (instances s ! j))))
           \<and> (smallCounters (heap s w) \<longrightarrow>
                (\<forall>v\<in>set (instances s).
                    isHealthy (heap s v) \<and> status (heap s v) = Running
                    \<and> smallCounters (heap s v)
                    \<longrightarrow> load_spec (heap s w) \<le> load_spec (heap s v)))"
proof -
  let ?P = "\<lambda>r. isHealthy (heap s r) \<and> status (heap s r) = Running"
  let ?f = "\<lambda>r. getInstanceLoad (heap s r)"
  let ?g = "\<lambda>mn i. if ?f i < ?f mn then i else mn"
  from assms have "filter ?P (instances s) \<noteq> []" by (simp add: filter_empty_conv)
  then obtain m rest where h: "getHealthyInstances s = m # rest"
    by (auto simp: getHealthyInstances_def neq_Nil_conv)
  let ?w = "foldl ?g m rest"
  have pick: "pickInstance s = Some ?w" by (simp add: pickInstance_def h)
  from foldl_least[of m rest ?f] obtain pre post where d: "m # rest = pre @ ?w # post"
    and p1: "\<forall>y\<in>set pre. ?f ?w < ?f y" and p2: "\<forall>y\<in>set post. ?f ?w \<le> ?f y"
    by blast
  have flt: "filter ?P (instances s) = pre @ ?w # post"
    using h d by (simp add: getHealthyInstances_def)
  then have "?w \<in> set (filter ?P (instances s))" by simp
  then have mem: "?w \<in> set (instances s)" and pw: "?P ?w" by auto
  have least: "\<forall>v\<in>set (instances s). ?P v \<longrightarrow> ?f ?w \<le> ?f v"
  proof (intro ballI impI)
    fix v assume "v \<in> set (instances s)" and "?P v"
    then have "v \<in> set (pre @ ?w # post)" using flt[symmetric] by simp
    then show "?f ?w \<le> ?f v" using p1 p2 by fastforce
  qed
  from filter_split_index[OF flt] obtain k where k: "k < length (instances s)"
    and at: "instances s ! k = ?w"
    and before: "\<forall>j<k. ?P (instances s ! j) \<longrightarrow> instances s ! j \<in> set pre"
    by blast
  have first: "\<forall>j<k. ?P (instances s ! j) \<longrightarrow> ?f ?w < ?f (instances s ! j)"
    using before p1 by blast
  have exact: "smallCounters (heap s ?w) \<longrightarrow>
                (\<forall>v\<in>set (instances s). ?P v \<and> smallCounters (heap s v)
                    \<longrightarrow> load_spec (heap s ?w) \<le> load_spec (heap s v))"
  proof (intro impI ballI)
    fix v
    assume sw: "smallCounters (heap s ?w)" and v: "v \<in> set (instances s)"
      and pv: "?P v \<and> smallCounters (heap s v)"
    show "load_spec (heap s ?w) \<le> load_spec (heap s v)"
    proof (rule ccontr)
      assume "\<not> load_spec (heap s ?w) \<le> load_spec (heap s v)"
      then have "load_spec (heap s v) < load_spec (heap s ?w)" by simp
      then have "?f v < ?f ?w"
        using getInstanceLoad_strict_mono pv sw by blast
      moreover have "?f ?w \<le> ?f v" using least v pv by blast
      ultimately show False by simp
    qed
  qed
  show ?thesis
    using pick mem pw least k at first exact by blast
qed

theorem pickInstance_least_loaded_witness:
  "(\<exists>r\<in>set (instances demoPool). isHealthy (heap demoPool r) \<and> status (heap demoPool r) = Running)
   \<and> pickInstance demoPool = Some 1
   \<and> getInstanceLoad (heap demoPool 1) = 1 / 2
   \<and> getInstanceLoad (heap demoPool 2) = 1 / 2
   \<and> smallCounters (heap demoPool 1) \<and> smallCounters (heap demoPool 0)
   \<and> load_spec (heap demoPool 1) \<le> load_spec (heap demoPool 0)"
proof -
  have h: "\<exists>r\<in>set (instances demoPool).
             isHealthy (heap demoPool r) \<and> status (heap demoPool r) = Running"
    by (simp add: demoPool_def demoInstance_def)
  have p: "pickInstance demoPool = Some 1"
    by code_simp
  have l: "getInstanceLoad (heap demoPool 1) = 1 / 2 \<and> getInstanceLoad (heap demoPool 2) = 1 / 2"
    by code_simp
  have c: "smallCounters (heap demoPool 1) \<and> smallCounters (heap demoPool 0)"
    by (simp add: smallCounters_def demoPool_def demoInstance_def)
  have m: "0 \<in> set (instances demoPool) \<and> isHealthy (heap demoPool 0)
           \<and> status (heap demoPool 0) = Running"
    by (simp add: demoPool_def demoInstance_def)
  from pickInstance_least_loaded[OF h] p c m
  have "load_spec (heap demoPool 1) \<le> load_spec (heap demoPool 0)" by auto
  then show ?thesis using h p l c by simp
qed

text \<open>
  Claim C1 as stated fails: the two workers of \<open>demoTie\<close> are healthy and running and
  have the same load 1.118 by the formula, and \<^verbatim>\<open>pickInstance\<close> returns the one inserted
  second, whose computed load 1.1179999999999999 is below the first one's 1.118.
\<close>

theorem pickInstance_tie_counterexample:
  "instances demoTie = [0, 1]
   \<and> isHealthy (heap demoTie 0) \<and> status (heap demoTie 0) = Running
   \<and> isHealthy (heap demoTie 1) \<and> status (heap demoTie 1) = Running
   \<and> load_spec (heap demoTie 0) = 1118 / 1000
   \<and> load_spec (heap demoTie 1) = 1118 / 1000
   \<and> getInstanceLoad (heap demoTie 0) = 5035024383400215 / 4503599627370496
   \<and> getInstanceLoad (heap demoTie 1) = 2517512191700107 / 2251799813685248
   \<and> pickInstance demoTie = Some 1"
  by code_simp

section \<open>Steps of the controller preserve the invariants\<close>

lemma sameShape_refl: "sameShape s s"
  by (simp add: sameShape_def)

lemma sameShape_trans: "sameShape s t \<Longrightarrow> sameShape t u \<Longrightarrow> sameShape s u"
  by (simp add: sameShape_def)

lemma sameShape_modify:
  "(\<And>i. port (f i) = port i) \<Longrightarrow> (\<And>i. 0 \<le> activeRequests i \<Longrightarrow> 0 \<le> activeRequests (f i))
     \<Longrightarrow> sameShape s (modify r f s)"
  by (simp add: sameShape_def modify_def)

lemma sameShape_removeInstance: "sameShape s (removeInstance oc r s)"
  by (simp add: sameShape_def removeInstance_fields removeInstance_heap_fields)

lemma sameShape_checkInstanceHealth: "sameShape s (checkInstanceHealth r pr s)"
  by (cases pr) (simp_all add: checkInstanceHealth_def sameShape_modify)

lemma instances_checkInstanceHealth: "instances (checkInstanceHealth r pr s) = instances s"
  by (cases pr) (simp_all add: checkInstanceHealth_def modify_def)

lemma sameShape_probes:
  "sameShape s (foldl (\<lambda>t r. checkInstanceHealth r (probes r) t) s rs)"
proof (induction rs arbitrary: s)
  case Nil
  show ?case by (simp add: sameShape_refl)
next
  case (Cons r rs)
  show ?case
    using sameShape_trans[OF sameShape_checkInstanceHealth Cons.IH] by simp
qed

lemma instances_probes:
  "instances (foldl (\<lambda>t r. checkInstanceHealth r (probes r) t) s rs) = instances s"
  by (induction rs arbitrary: s) (simp_all add: instances_checkInstanceHealth)

lemma sameShape_removals:
  "sameShape s (foldl (\<lambda>t r. removeInstance (ocs r) r t) s rs)"
proof (induction rs arbitrary: s)
  case Nil
  show ?case by (simp add: sameShape_refl)
next
  case (Cons r rs)
  show ?case
    using sameShape_trans[OF sameShape_removeInstance Cons.IH] by simp
qed

text \<open>The pool after a sequence of removals is the pool with these first occurrences removed.\<close>

lemma instances_removals:
  "instances (foldl (\<lambda>t r. removeInstance (ocs r) r t) s rs) = foldl (\<lambda>xs r. remove1 r xs) (instances s) rs"
  by (induction rs arbitrary: s) (simp_all add: removeInstance_instances)









lemma sameShape_healthCheckAll: "sameShape s (healthCheckAll probes now ocs s)"
  unfolding healthCheckAll_def Let_def
  by (rule sameShape_trans[OF sameShape_probes sameShape_removals])


lemma sameShape_shutdown_map: "sameShape s (shutdown_map ocs k n s)"
proof (induction n arbitrary: k s)
  case 0
  show ?case by (simp add: sameShape_refl)
next
  case (Suc n)
  show ?case
  proof (cases "k < length (instances s)")
    case True
    then show ?thesis
      using sameShape_trans[OF sameShape_removeInstance Suc.IH] by simp
  next
    case False
    then show ?thesis using Suc.IH by simp
  qed
qed


lemma sameShape_shutdown: "sameShape s (shutdown ocs s)"
  by (simp add: shutdown_def sameShape_shutdown_map)

text \<open>A shutdown of four workers removes the first and the third.\<close>

lemma shutdown_skips_every_second:
  "instances (shutdown (\<lambda>_. ok) demoPool) = [1, 3]"
  by (simp add: shutdown_def eval_defs demoPool_def)

text \<open>Spawning: a fresh port for the pending spawn, a fresh object for the created container.\<close>

lemma spawnInstance_begin_fields:
  "instances (spawnInstance_begin s) = instances s"
  "heap (spawnInstance_begin s) = heap s"
  "nextRef (spawnInstance_begin s) = nextRef s"
  "nextPort (spawnInstance_begin s) = nextPort s + 1"
  "spawning (spawnInstance_begin s) = spawning s @ [nextPort s]"
  by (simp_all add: spawnInstance_begin_def getNextPort_def)




lemma heap_funpow_begin: "heap ((spawnInstance_begin ^^ n) s) = heap s"
  by (induction n) (simp_all add: spawnInstance_begin_fields)

lemma spawnInstance_resume_skip:
  "p \<notin> set (spawning s) \<Longrightarrow> spawnInstance_resume cfg p uuid out now s = s"
  by (simp add: spawnInstance_resume_def)

lemma spawnInstance_resume_failed:
  "p \<in> set (spawning s) \<Longrightarrow>
     instances (spawnInstance_resume cfg p uuid None now s) = instances s
     \<and> heap (spawnInstance_resume cfg p uuid None now s) = heap s
     \<and> nextRef (spawnInstance_resume cfg p uuid None now s) = nextRef s
     \<and> nextPort (spawnInstance_resume cfg p uuid None now s) = nextPort s
     \<and> spawning (spawnInstance_resume cfg p uuid None now s) = remove1 p (spawning s)"
  by (simp add: spawnInstance_resume_def createContainer_def Let_def)

lemma spawnInstance_resume_created:
  "p \<in> set (spawning s) \<Longrightarrow>
     instances (spawnInstance_resume cfg p uuid (Some cid) now s) = instances s @ [nextRef s]
     \<and> nextRef (spawnInstance_resume cfg p uuid (Some cid) now s) = Suc (nextRef s)
     \<and> nextPort (spawnInstance_resume cfg p uuid (Some cid) now s) = nextPort s
     \<and> spawning (spawnInstance_resume cfg p uuid (Some cid) now s) = remove1 p (spawning s)
     \<and> (\<forall>x. x \<noteq> nextRef s \<longrightarrow>
           heap (spawnInstance_resume cfg p uuid (Some cid) now s) x = heap s x)
     \<and> port (heap (spawnInstance_resume cfg p uuid (Some cid) now s) (nextRef s)) = p
     \<and> activeRequests (heap (spawnInstance_resume cfg p uuid (Some cid) now s) (nextRef s)) = 0"
  by (simp add: spawnInstance_resume_def createContainer_def Let_def)



lemma sameShape_waitForInstanceReady_status:
  "sameShape s (waitForInstanceReady_status r st s)"
  by (simp add: waitForInstanceReady_status_def sameShape_modify sameShape_refl)


lemma snd_handleRequest:
  "snd (handleRequest url m now s) =
     (case pickInstance s of
        None \<Rightarrow> s
      | Some instance \<Rightarrow>
          modify instance (\<lambda>i. i\<lparr>activeRequests := activeRequests i + 1,
                                  totalRequests := totalRequests i + 1,
                                  lastRequestTime := now\<rparr>) s)"
  by (simp add: handleRequest_def Let_def split: option.split)

lemma sameShape_handleRequest: "sameShape s (snd (handleRequest url m now s))"
  by (simp add: snd_handleRequest sameShape_modify sameShape_refl split: option.split)


lemma sameShape_onProxyEnd: "sameShape s (onProxyEnd r t0 now s)"
  unfolding onProxyEnd_def
  by (rule sameShape_trans[OF sameShape_modify sameShape_modify]) simp_all


lemma sameShape_onProxyError: "sameShape s (snd (onProxyError r hs s))"
  by (simp add: onProxyError_def Let_def sameShape_modify)


lemma sameShape_onProxyTimeout: "sameShape s (snd (onProxyTimeout r hs s))"
  by (simp add: onProxyTimeout_def Let_def sameShape_modify)






lemma reachable_foldl: "reachable cfg s \<Longrightarrow> reachable cfg (foldl (step cfg) s evs)"
  by (induction evs arbitrary: s) (simp_all add: reach_step)

lemma reachable_run: "reachable cfg (run cfg evs)"
  by (simp add: run_def reachable_foldl reach_init)

text \<open>Every step either keeps the shape of the state, or starts spawns, or resumes one.\<close>

lemma step_shape:
  "sameShape s (step cfg s e)
   \<or> (\<exists>n. step cfg s e = (spawnInstance_begin ^^ n) s)
   \<or> (\<exists>p uuid out now. step cfg s e = spawnInstance_resume cfg p uuid out now s)"
proof (cases e)
  case EvInitialize
  then have "step cfg s e = (spawnInstance_begin ^^ nat (minInstances cfg)) s"
    by (simp add: initialize_def)
  then show ?thesis by blast
next
  case (EvSpawnResume p uuid out now)
  then have "step cfg s e = spawnInstance_resume cfg p uuid out now s" by simp
  then show ?thesis by blast
next
  case (EvReadyStatus r st)
  then show ?thesis by (simp add: sameShape_waitForInstanceReady_status sameShape_refl)
next
  case (EvReadyExpired r oc)
  then show ?thesis
    by (simp add: waitForInstanceReady_expired_def sameShape_removeInstance sameShape_refl)
next
  case (EvProbe r pr)
  then show ?thesis by (simp add: sameShape_checkInstanceHealth sameShape_refl)
next
  case (EvHealthCheckAll probes now ocs)
  then show ?thesis by (simp add: sameShape_healthCheckAll)
next
  case (EvAutoScale now oc)
  show ?thesis
  proof (cases "autoScale_action cfg now s")
    case ScaleUp
    then have "step cfg s e = (spawnInstance_begin ^^ 1) s"
      using EvAutoScale by (simp add: autoScale_def)
    then show ?thesis by blast
  next
    case (ScaleDown c)
    then show ?thesis using EvAutoScale by (simp add: autoScale_def sameShape_removeInstance)
  next
    case NoAction
    then show ?thesis using EvAutoScale by (simp add: autoScale_def sameShape_refl)
  qed
next
  case (EvRequest url m now)
  then show ?thesis by (simp add: sameShape_handleRequest)
next
  case (EvProxyEnd r t0 now)
  then show ?thesis by (simp add: sameShape_onProxyEnd sameShape_refl)
next
  case (EvProxyError r hs)
  then show ?thesis by (simp add: sameShape_onProxyError sameShape_refl)
next
  case (EvProxyTimeout r hs)
  then show ?thesis by (simp add: sameShape_onProxyTimeout sameShape_refl)
next
  case (EvShutdown ocs)
  then show ?thesis by (simp add: sameShape_shutdown)
qed

lemma activeRequests_resume:
  assumes "\<forall>x. 0 \<le> activeRequests (heap s x)"
  shows "0 \<le> activeRequests (heap (spawnInstance_resume cfg p uuid out now s) x)"
proof (cases "p \<in> set (spawning s)")
  case False
  then show ?thesis using assms by (simp add: spawnInstance_resume_skip)
next
  case True
  show ?thesis
  proof (cases out)
    case None
    then show ?thesis using assms spawnInstance_resume_failed[OF True, of cfg uuid now] by simp
  next
    case (Some cid)
    then show ?thesis
      using assms spawnInstance_resume_created[OF True, of cfg uuid cid now]
      by (cases "x = nextRef s") auto
  qed
qed


lemma activeRequests_step:
  assumes "\<forall>x. 0 \<le> activeRequests (heap s x)"
  shows "0 \<le> activeRequests (heap (step cfg s e) x)"
  using step_shape[of s cfg e]
proof (elim disjE exE)
  assume "sameShape s (step cfg s e)"
  then show ?thesis using assms unfolding sameShape_def by blast
next
  fix n assume "step cfg s e = (spawnInstance_begin ^^ n) s"
  then show ?thesis using assms by (simp add: heap_funpow_begin)
next
  fix p uuid out now assume "step cfg s e = spawnInstance_resume cfg p uuid out now s"
  then show ?thesis using activeRequests_resume[OF assms] by simp
qed



section \<open>The request counter\<close>

text \<open>
  Claim C7. In every reachable state of the controller every worker has
  \<open>activeRequests \<ge> 0\<close>. The reachable states are closed under every callback in any
  order and any number, so this covers executions in which the decrement runs twice for
  one request.
\<close>

theorem activeRequests_never_negative:
  "reachable cfg s \<Longrightarrow> 0 \<le> activeRequests (heap s r)"
proof -
  have "reachable cfg s \<Longrightarrow> \<forall>x. 0 \<le> activeRequests (heap s x)"
  proof (induction rule: reachable.induct)
    case reach_init
    show ?case by (simp add: initLB_def blankInstance_def)
  next
    case (reach_step s e)
    then show ?case using activeRequests_step by blast
  qed
  then show "reachable cfg s \<Longrightarrow> 0 \<le> activeRequests (heap s r)" by blast
qed

theorem activeRequests_never_negative_witness:
  "reachable demoCfg (run demoCfg demoTimeoutTrace)
   \<and> activeRequests (heap (run demoCfg (take 5 demoTimeoutTrace)) 0) = 1
   \<and> activeRequests (heap (run demoCfg demoTimeoutTrace) 0) = 0
   \<and> 0 \<le> activeRequests (heap (run demoCfg demoTimeoutTrace) 0)"
  using activeRequests_never_negative[OF reachable_run, of demoCfg demoTimeoutTrace 0]
    reachable_run[of demoCfg demoTimeoutTrace]
  by (simp add: eval_defs demoTimeoutTrace_def)

section \<open>Ports\<close>



section \<open>No healthy worker\<close>

text \<open>
  Claim C4. When no worker of the pool is healthy and running, \<^verbatim>\<open>handleRequest\<close> answers
  503 with the error text, the size of the pool and the number of healthy workers (zero),
  opens no upstream request, and returns the state unchanged, hence every counter of
  every worker.
\<close>

theorem no_healthy_worker_503:
  assumes "\<forall>r\<in>set (instances s). \<not> (isHealthy (heap s r) \<and> status (heap s r) = Running)"
  shows "handleRequest url m now s =
           (Rejected 503
              [(''error'', JStr ''No healthy backend servers available''),
               (''instances'', JNum (int (length (instances s)))),
               (''healthy'', JNum (int (length (getHealthyInstances s))))], s)
         \<and> length (getHealthyInstances s) = 0"
proof -
  have "getHealthyInstances s = []"
    using assms by (simp add: getHealthyInstances_def filter_empty_conv)
  then show ?thesis by (simp add: handleRequest_def pickInstance_def)
qed

theorem no_healthy_worker_503_witness:
  "list_all (\<lambda>r. \<not> (isHealthy (heap demoDown r) \<and> status (heap demoDown r) = Running))
     (instances demoDown)
   \<and> handleRequest ''/api/user'' ''GET'' 2000 demoDown =
       (Rejected 503
          [(''error'', JStr ''No healthy backend servers available''),
           (''instances'', JNum 2), (''healthy'', JNum 0)], demoDown)"
proof -
  have h: "\<forall>r\<in>set (instances demoDown).
      \<not> (isHealthy (heap demoDown r) \<and> status (heap demoDown r) = Running)"
    by (simp add: demoDown_def demoInstance_def)
  have l: "length (instances demoDown) = 2" by (simp add: demoDown_def)
  from no_healthy_worker_503[OF h, of "''/api/user''" "''GET''" 2000] h l
  show ?thesis by (simp add: list_all_iff)
qed

section \<open>Scaling down\<close>

lemma sort_key_head:
  fixes f :: "'a \<Rightarrow> int"
  assumes "sort_key f xs = c # rest"
  shows "c \<in> set xs \<and> (\<forall>x\<in>set xs. f c \<le> f x)"
proof -
  have "set (c # rest) = set xs" using assms set_sort[of f xs] by simp
  moreover have "sorted (map f (c # rest))" using assms sorted_sort_key[of f xs] by simp
  ultimately show ?thesis by auto
qed

lemma getHealthyInstances_removeInstance:
  assumes "distinct (instances s)"
  shows "getHealthyInstances (removeInstance oc c s) = remove1 c (getHealthyInstances s)"
proof -
  let ?s' = "removeInstance oc c s"
  have "\<forall>x\<in>set (remove1 c (instances s)). heap ?s' x = heap s x"
    using assms by (auto simp: removeInstance_heap_other)
  then have "filter (\<lambda>r. isHealthy (heap ?s' r) \<and> status (heap ?s' r) = Running)
               (remove1 c (instances s))
             = filter (\<lambda>r. isHealthy (heap s r) \<and> status (heap s r) = Running)
               (remove1 c (instances s))"
    by (auto intro: filter_cong)
  then show ?thesis
    by (simp add: getHealthyInstances_def removeInstance_instances filter_remove1)
qed

text \<open>
  Claim C5, as the code has it. When \<^verbatim>\<open>autoScale\<close> takes a scale-down action on the
  worker \<open>c\<close>, then there are more than \<^verbatim>\<open>minInstances\<close> healthy workers, their average
  load as the code computes it in double arithmetic (\<open>avgLoad\<close>) is below
  \<^verbatim>\<open>scaleDownThreshold\<close>, and some healthy worker has no active request and was last
  used more than \<^verbatim>\<open>idleTimeout\<close> ago; \<open>c\<close> is a healthy worker without active requests
  whose \<^verbatim>\<open>lastRequestTime\<close> is the oldest among the healthy workers without active
  requests, \<open>c\<close> itself has been idle for more than \<^verbatim>\<open>idleTimeout\<close>, the action removes
  exactly \<open>c\<close>, and afterwards at least \<^verbatim>\<open>minInstances\<close> healthy workers remain.
\<close>

theorem scale_down_conditions:
  assumes act: "autoScale_action cfg now s = ScaleDown c"
    and d: "distinct (instances s)"
  shows "int (length (getHealthyInstances s)) > minInstances cfg
         \<and> (\<exists>a. avgLoad s = Some a \<and> a < scaleDownThreshold cfg)
         \<and> (\<exists>w\<in>set (getHealthyInstances s).
               activeRequests (heap s w) = 0
               \<and> now - lastRequestTime (heap s w) > idleTimeout cfg)
         \<and> c \<in> set (getHealthyInstances s)
         \<and> activeRequests (heap s c) = 0
         \<and> (\<forall>w\<in>set (getHealthyInstances s).
               activeRequests (heap s w) = 0
               \<longrightarrow> lastRequestTime (heap s c) \<le> lastRequestTime (heap s w))
         \<and> now - lastRequestTime (heap s c) > idleTimeout cfg
         \<and> autoScale cfg now oc s = removeInstance oc c s
         \<and> c \<notin> set (instances (autoScale cfg now oc s))
         \<and> length (getHealthyInstances (autoScale cfg now oc s))
             = length (getHealthyInstances s) - 1
         \<and> int (length (getHealthyInstances (autoScale cfg now oc s))) \<ge> minInstances cfg"
proof -
  let ?h = "getHealthyInstances s"
  let ?f = "\<lambda>r. lastRequestTime (heap s r)"
  let ?idle = "filter (\<lambda>r. activeRequests (heap s r) = 0) ?h"
  from act have nu: "\<not> shouldScaleUp cfg s"
    by (auto simp: autoScale_action_def Let_def split: if_splits)
  from act nu have sd: "shouldScaleDown cfg now s"
    by (auto simp: autoScale_action_def Let_def split: if_splits)
  from act nu sd obtain rest where srt: "sort_key ?f ?idle = c # rest"
    by (auto simp: autoScale_action_def Let_def split: list.splits)
  from sd have gt: "int (length ?h) > minInstances cfg"
    by (auto simp: shouldScaleDown_def Let_def split: if_splits)
  from sd have avg: "\<exists>a. avgLoad s = Some a \<and> a < scaleDownThreshold cfg"
    by (auto simp: shouldScaleDown_def Let_def split: if_splits option.splits)
  from sd have ex: "\<exists>w\<in>set ?h. activeRequests (heap s w) = 0
                     \<and> now - lastRequestTime (heap s w) > idleTimeout cfg"
    by (auto simp: shouldScaleDown_def Let_def list_ex_iff split: if_splits)
  from sort_key_head[OF srt] have cin: "c \<in> set ?idle"
    and least: "\<forall>x\<in>set ?idle. ?f c \<le> ?f x" by blast+
  from cin have ch: "c \<in> set ?h" and c0: "activeRequests (heap s c) = 0" by auto
  have oldest: "\<forall>w\<in>set ?h. activeRequests (heap s w) = 0 \<longrightarrow> ?f c \<le> ?f w"
    using least by auto
  from ex obtain w where "w \<in> set ?h" "activeRequests (heap s w) = 0"
    and wi: "now - ?f w > idleTimeout cfg" by blast
  then have "?f c \<le> ?f w" using oldest by blast
  then have cidle: "now - ?f c > idleTimeout cfg" using wi by linarith
  have eq: "autoScale cfg now oc s = removeInstance oc c s"
    using act by (simp add: autoScale_def)
  have gone: "c \<notin> set (instances (removeInstance oc c s))"
    using d by (simp add: removeInstance_instances)
  have len: "length (getHealthyInstances (removeInstance oc c s)) = length ?h - 1"
    using ch by (simp add: getHealthyInstances_removeInstance[OF d] length_remove1)
  have ge: "int (length (getHealthyInstances (removeInstance oc c s))) \<ge> minInstances cfg"
    using len gt by linarith
  show ?thesis
    unfolding eq using gt avg ex ch c0 oldest cidle gone len ge by blast
qed

theorem scale_down_conditions_witness:
  "autoScale_action demoCfg 40000 demoIdle = ScaleDown 1
   \<and> distinct (instances demoIdle)
   \<and> length (getHealthyInstances demoIdle) = 2
   \<and> instances (autoScale demoCfg 40000 ok demoIdle) = [0]
   \<and> int (length (getHealthyInstances (autoScale demoCfg 40000 ok demoIdle)))
       \<ge> minInstances demoCfg"
proof -
  have a: "autoScale_action demoCfg 40000 demoIdle = ScaleDown 1"
    by code_simp
  have d: "distinct (instances demoIdle)" by (simp add: demoIdle_def)
  have l: "length (getHealthyInstances demoIdle) = 2"
    by (simp add: eval_defs demoIdle_def)
  have i: "instances (autoScale demoCfg 40000 ok demoIdle) = [0]"
    by (simp add: autoScale_def a removeInstance_instances) (simp add: demoIdle_def)
  from scale_down_conditions[OF a d, of ok] a d l i show ?thesis by blast
qed

text \<open>
  Claim C5 as stated fails: the loads of the three workers of \<open>demoAvg\<close> have the mean
  1/2, which is not below the threshold 1/2, and \<^verbatim>\<open>autoScale\<close> scales down all the same,
  because it computes the average 0.49999999999999994.
\<close>

theorem scale_down_average_counterexample:
  "scaleDownThreshold demoAvgCfg = 1 / 2
   \<and> avgLoad_spec demoAvg = Some (1 / 2)
   \<and> avgLoad demoAvg = Some (9007199254740991 / 18014398509481984)
   \<and> autoScale_action demoAvgCfg 40000 demoAvg = ScaleDown 0"
  by code_simp

section \<open>Removal is idempotent\<close>

lemma removeInstance_P_instances:
  "instances_P (removeInstance_P r t) = remove1 r (instances_P t)"
proof (cases "r \<in> set (instances_P t)")
  case True
  then show ?thesis
    using indexOf_mem[of "instances_P t" r]
    by (simp add: removeInstance_P_def Let_def splice1_indexOf)
next
  case False
  then show ?thesis
    using indexOf_mem[of "instances_P t" r]
    by (simp add: removeInstance_P_def Let_def remove1_idem)
qed

lemma removeInstance_P_absent:
  "r \<notin> set (instances_P t) \<Longrightarrow> removeInstance_P r t = t"
  using indexOf_mem[of "instances_P t" r] by (simp add: removeInstance_P_def Let_def)

lemma removeInstance_P_heap: "heap_P (removeInstance_P r t) = heap_P t"
  by (simp add: removeInstance_P_def Let_def)

text \<open>
  Claim C10. In a pool whose slots hold pairwise different objects (which is what
  \<^verbatim>\<open>spawnInstance\<close> builds, see \<open>reachable_wf\<close>), for both variants of
  \<^verbatim>\<open>removeInstance\<close>: removing a worker that is not in the array leaves the array as
  it is; after one removal the worker is gone, and a second removal of the same worker
  yields the same array and the same records for its members; the records of all other
  workers are untouched by a removal. The function has no failing branch: the container
  variant catches every error of the docker commands.
\<close>

theorem removeInstance_idempotent:
  assumes "distinct (instances s)" and "distinct (instances_P t)"
  shows "(r \<notin> set (instances s) \<longrightarrow> instances (removeInstance oc r s) = instances s)
         \<and> r \<notin> set (instances (removeInstance oc r s))
         \<and> instances (removeInstance oc' r (removeInstance oc r s))
             = instances (removeInstance oc r s)
         \<and> (\<forall>x. x \<noteq> r \<longrightarrow> heap (removeInstance oc r s) x = heap s x)
         \<and> (\<forall>x\<in>set (instances (removeInstance oc r s)).
               heap (removeInstance oc' r (removeInstance oc r s)) x
               = heap (removeInstance oc r s) x)
         \<and> (r \<notin> set (instances_P t) \<longrightarrow> removeInstance_P r t = t)
         \<and> r \<notin> set (instances_P (removeInstance_P r t))
         \<and> removeInstance_P r (removeInstance_P r t) = removeInstance_P r t
         \<and> heap_P (removeInstance_P r t) = heap_P t"
proof -
  have a: "r \<notin> set (instances s) \<longrightarrow> instances (removeInstance oc r s) = instances s"
    by (simp add: removeInstance_instances remove1_idem)
  have b: "r \<notin> set (instances (removeInstance oc r s))"
    using assms(1) by (simp add: removeInstance_instances)
  have c: "instances (removeInstance oc' r (removeInstance oc r s))
             = instances (removeInstance oc r s)"
    using b by (simp add: removeInstance_instances[of oc' r] remove1_idem)
  have d: "\<forall>x. x \<noteq> r \<longrightarrow> heap (removeInstance oc r s) x = heap s x"
    by (simp add: removeInstance_heap_other)
  have e: "\<forall>x\<in>set (instances (removeInstance oc r s)).
               heap (removeInstance oc' r (removeInstance oc r s)) x
               = heap (removeInstance oc r s) x"
  proof (intro ballI)
    fix x assume "x \<in> set (instances (removeInstance oc r s))"
    then have "x \<noteq> r" using b by auto
    then show "heap (removeInstance oc' r (removeInstance oc r s)) x
               = heap (removeInstance oc r s) x"
      by (rule removeInstance_heap_other)
  qed
  have f: "r \<notin> set (instances_P t) \<longrightarrow> removeInstance_P r t = t"
    by (simp add: removeInstance_P_absent)
  have g: "r \<notin> set (instances_P (removeInstance_P r t))"
    using assms(2) by (simp add: removeInstance_P_instances)
  have h: "removeInstance_P r (removeInstance_P r t) = removeInstance_P r t"
    using g by (rule removeInstance_P_absent)
  show ?thesis using a b c d e f g h removeInstance_P_heap by blast
qed

theorem removeInstance_idempotent_witness:
  "distinct (instances demoPool) \<and> distinct (instances_P demoProc)
   \<and> instances (removeInstance ok 1 demoPool) = [0, 2, 3]
   \<and> instances (removeInstance failing 1 (removeInstance ok 1 demoPool)) = [0, 2, 3]
   \<and> instances (removeInstance ok 7 demoPool) = [0, 1, 2, 3]
   \<and> instances_P (removeInstance_P 0 demoProc) = []
   \<and> removeInstance_P 0 (removeInstance_P 0 demoProc) = removeInstance_P 0 demoProc"
proof -
  have d1: "distinct (instances demoPool)" by (simp add: demoPool_def)
  have d2: "distinct (instances_P demoProc)" by (simp add: demoProc_def)
  have i1: "instances (removeInstance ok 1 demoPool) = [0, 2, 3]"
    by (simp add: removeInstance_instances) (simp add: demoPool_def)
  have i2: "instances (removeInstance ok 7 demoPool) = [0, 1, 2, 3]"
    by (simp add: removeInstance_instances) (simp add: demoPool_def)
  have i3: "instances_P (removeInstance_P 0 demoProc) = []"
    by (simp add: removeInstance_P_instances) (simp add: demoProc_def)
  from removeInstance_idempotent[OF d1 d2, of 1 ok failing] i1
  have "instances (removeInstance failing 1 (removeInstance ok 1 demoPool)) = [0, 2, 3]"
    by simp
  moreover from removeInstance_idempotent[OF d1 d2, of 0 ok failing]
  have "removeInstance_P 0 (removeInstance_P 0 demoProc) = removeInstance_P 0 demoProc"
    by blast
  ultimately show ?thesis using d1 d2 i1 i2 i3 by blast
qed

section \<open>Which callbacks write the response time\<close>

lemma responseTime_onProxyError:
  "responseTime (heap (snd (onProxyError r hs s)) x) = responseTime (heap s x)"
  by (simp add: onProxyError_def Let_def modify_def)

lemma responseTime_onProxyTimeout:
  "responseTime (heap (snd (onProxyTimeout r hs s)) x) = responseTime (heap s x)"
  by (simp add: onProxyTimeout_def Let_def modify_def)

lemma responseTime_proxyEvents:
  "list_all (\<lambda>e. \<not> isProxyEnd e) es \<Longrightarrow>
     responseTime (heap (proxyEvents r t0 es hs s) x) = responseTime (heap s x)"
proof (induction r t0 es hs s rule: proxyEvents.induct)
  case (1 r startTime hs s)
  show ?case by simp
next
  case (2 r startTime es hs s)
  then show ?case by simp
next
  case (3 r startTime now es hs s)
  then show ?case by simp
next
  case (4 r startTime es hs s)
  then show ?case
    using responseTime_onProxyError[of r hs s x]
    by (simp add: split_beta)
next
  case (5 r startTime es hs s)
  then show ?case
    using responseTime_onProxyTimeout[of r hs s x]
    by (simp add: split_beta)
qed

text \<open>
  Claim C9. The error callback and the timeout callback of \<^verbatim>\<open>handleRequest\<close> decrement
  \<^verbatim>\<open>activeRequests\<close> of the chosen worker (saturating at 0) and leave
  \<^verbatim>\<open>responseTime\<close> of every worker unchanged, as does the dispatch itself; the end
  callback of the proxied response sets \<^verbatim>\<open>responseTime\<close> to the time since
  \<^verbatim>\<open>startTime\<close>; and no sequence of callbacks without an end callback changes it.
\<close>

theorem responseTime_written_on_end_only:
  "responseTime (heap (snd (onProxyError r hs s)) x) = responseTime (heap s x)
   \<and> responseTime (heap (snd (onProxyTimeout r hs s)) x) = responseTime (heap s x)
   \<and> activeRequests (heap (snd (onProxyError r hs s)) r) = max 0 (activeRequests (heap s r) - 1)
   \<and> activeRequests (heap (snd (onProxyTimeout r hs s)) r)
       = max 0 (activeRequests (heap s r) - 1)
   \<and> responseTime (heap (snd (handleRequest url m now s)) x) = responseTime (heap s x)
   \<and> responseTime (heap (onProxyEnd r started now s) r) = now - started
   \<and> (list_all (\<lambda>e. \<not> isProxyEnd e) es \<longrightarrow>
        responseTime (heap (proxyEvents r started es hs s) x) = responseTime (heap s x))"
proof -
  have "responseTime (heap (snd (handleRequest url m now s)) x) = responseTime (heap s x)"
    by (simp add: snd_handleRequest modify_def split: option.split)
  moreover have "activeRequests (heap (snd (onProxyError r hs s)) r)
                   = max 0 (activeRequests (heap s r) - 1)"
    by (simp add: onProxyError_def Let_def modify_def)
  moreover have "activeRequests (heap (snd (onProxyTimeout r hs s)) r)
                   = max 0 (activeRequests (heap s r) - 1)"
    by (simp add: onProxyTimeout_def Let_def modify_def)
  moreover have "responseTime (heap (onProxyEnd r started now s) r) = now - started"
    by (simp add: onProxyEnd_def modify_def)
  ultimately show ?thesis
    using responseTime_onProxyError responseTime_onProxyTimeout responseTime_proxyEvents
    by blast
qed

theorem responseTime_written_on_end_only_witness:
  "list_all (\<lambda>e. \<not> isProxyEnd e) [ProxyTimeout, ProxyError]
   \<and> responseTime (heap (snd (handleRequest ''/api/user'' ''GET'' 5000 demoBusy)) 0) = 80
   \<and> responseTime
        (heap (proxyEvents 0 5000 [ProxyTimeout, ProxyError] False
                 (snd (handleRequest ''/api/user'' ''GET'' 5000 demoBusy))) 0) = 80
   \<and> responseTime
        (heap (proxyEvents 0 5000 [ProxyResponse, ProxyEnd 5230] False
                 (snd (handleRequest ''/api/user'' ''GET'' 5000 demoBusy))) 0) = 230"
proof -
  have n: "list_all (\<lambda>e. \<not> isProxyEnd e) [ProxyTimeout, ProxyError]" by simp
  have a: "responseTime (heap demoBusy 0) = 80" by (simp add: demoBusy_def demoInstance_def)
  have b: "responseTime
        (heap (proxyEvents 0 5000 [ProxyResponse, ProxyEnd 5230] False
                 (snd (handleRequest ''/api/user'' ''GET'' 5000 demoBusy))) 0) = 230"
    by (simp add: onProxyEnd_def modify_def)
  from responseTime_written_on_end_only[where r = 0 and hs = False and x = 0
      and s = "snd (handleRequest ''/api/user'' ''GET'' 5000 demoBusy)" and started = 5000
      and es = "[ProxyTimeout, ProxyError]"]
    responseTime_written_on_end_only[where s = demoBusy and x = 0 and url = "''/api/user''"
      and m = "''GET''" and now = 5000 and es = "[]"] n a b
  show ?thesis by simp
qed

section \<open>Eviction of persistently unhealthy workers\<close>

lemma foldl_remove1_filter:
  "distinct xs \<Longrightarrow> foldl (\<lambda>ys r. remove1 r ys) xs rs = filter (\<lambda>x. x \<notin> set rs) xs"
proof (induction rs arbitrary: xs)
  case Nil
  show ?case by simp
next
  case (Cons r rs)
  have e: "remove1 r xs = filter (\<lambda>x. x \<noteq> r) xs"
    using Cons.prems by (simp add: distinct_remove1_removeAll removeAll_filter_not_eq) metis
  have "distinct (remove1 r xs)" using Cons.prems by simp
  from Cons.IH[OF this]
  have "foldl (\<lambda>ys r. remove1 r ys) (remove1 r xs) rs
          = filter (\<lambda>x. x \<notin> set rs) (filter (\<lambda>x. x \<noteq> r) xs)"
    by (simp only: e)
  also have "\<dots> = filter (\<lambda>x. x \<notin> set (r # rs)) xs"
    by (auto intro: filter_cong)
  finally show ?case by simp
qed

lemma health_fields_removals:
  "isHealthy (heap (foldl (\<lambda>t r. removeInstance (ocs r) r t) s rs) x) = isHealthy (heap s x)
   \<and> lastHealth (heap (foldl (\<lambda>t r. removeInstance (ocs r) r t) s rs) x) = lastHealth (heap s x)
   \<and> containerId (heap (foldl (\<lambda>t r. removeInstance (ocs r) r t) s rs) x) = containerId (heap s x)"
  by (induction rs arbitrary: s) (simp_all add: removeInstance_heap_fields)

lemma dockerLog_removeInstance:
  "set (dockerLog s) \<union> {DockerStop (containerId (heap s r))}
     \<subseteq> set (dockerLog (removeInstance oc r s))"
  by (auto simp: removeInstance_def removeContainer_def logCmd_def modify_def Let_def)

lemma dockerLog_removals:
  "set (dockerLog s) \<union> (\<lambda>r. DockerStop (containerId (heap s r))) ` set rs
     \<subseteq> set (dockerLog (foldl (\<lambda>t r. removeInstance (ocs r) r t) s rs))"
proof (induction rs arbitrary: s)
  case Nil
  show ?case by simp
next
  case (Cons r rs)
  have c: "\<And>x. containerId (heap (removeInstance (ocs r) r s) x) = containerId (heap s x)"
    by (simp add: removeInstance_heap_fields)
  show ?case
    using Cons.IH[of "removeInstance (ocs r) r s"] dockerLog_removeInstance[of s r "ocs r"]
    by (auto simp: c)
qed

text \<open>
  The container variant: after a tick no worker of the pool is unhealthy with a last
  healthy time more than 60000 ms before the tick's clock, and for every worker evicted
  \<^verbatim>\<open>docker stop\<close> was issued.
\<close>

lemma healthCheckAll_evicts:
  assumes "distinct (instances s)"
  shows "\<forall>r\<in>set (instances (healthCheckAll probes now ocs s)).
           \<not> (\<not> isHealthy (heap (healthCheckAll probes now ocs s) r)
              \<and> now - lastHealth (heap (healthCheckAll probes now ocs s) r) > 60000)"
    and "\<forall>r\<in>set (instances s).
           \<not> isHealthy (heap (healthCheckAll probes now ocs s) r)
           \<and> now - lastHealth (heap (healthCheckAll probes now ocs s) r) > 60000
           \<longrightarrow> r \<notin> set (instances (healthCheckAll probes now ocs s))
               \<and> DockerStop (containerId (heap s r))
                    \<in> set (dockerLog (healthCheckAll probes now ocs s))"
proof -
  let ?s1 = "foldl (\<lambda>t r. checkInstanceHealth r (probes r) t) s (instances s)"
  let ?bad = "\<lambda>r. \<not> isHealthy (heap ?s1 r) \<and> now - lastHealth (heap ?s1 r) > 60000"
  let ?U = "filter ?bad (instances s)"
  let ?s' = "healthCheckAll probes now ocs s"
  have i1: "instances ?s1 = instances s" by (rule instances_probes)
  have s': "?s' = foldl (\<lambda>t r. removeInstance (ocs r) r t) ?s1 ?U"
    by (simp add: healthCheckAll_def Let_def i1)
  have inst: "instances ?s' = filter (\<lambda>x. x \<notin> set ?U) (instances s)"
    unfolding s' instances_removals i1 using assms by (rule foldl_remove1_filter)
  have hf: "\<And>x. isHealthy (heap ?s' x) = isHealthy (heap ?s1 x)"
    "\<And>x. lastHealth (heap ?s' x) = lastHealth (heap ?s1 x)"
    unfolding s' using health_fields_removals by blast+
  show "\<forall>r\<in>set (instances ?s'). \<not> (\<not> isHealthy (heap ?s' r) \<and> now - lastHealth (heap ?s' r) > 60000)"
    unfolding hf inst by auto
  have cid: "\<And>x. containerId (heap ?s1 x) = containerId (heap s x)"
  proof -
    fix x
    have "\<And>t rs. containerId (heap (foldl (\<lambda>t r. checkInstanceHealth r (probes r) t) t rs) x)
            = containerId (heap t x)"
    proof -
      fix t rs
      show "containerId (heap (foldl (\<lambda>t r. checkInstanceHealth r (probes r) t) t rs) x)
            = containerId (heap t x)"
      proof (induction rs arbitrary: t)
        case Nil
        show ?case by simp
      next
        case (Cons r rs)
        have "containerId (heap (checkInstanceHealth r (probes r) t) x) = containerId (heap t x)"
          by (cases "probes r") (simp_all add: checkInstanceHealth_def modify_def)
        then show ?case using Cons.IH by simp
      qed
    qed
    then show "containerId (heap ?s1 x) = containerId (heap s x)" .
  qed
  show "\<forall>r\<in>set (instances s).
           \<not> isHealthy (heap ?s' r) \<and> now - lastHealth (heap ?s' r) > 60000
           \<longrightarrow> r \<notin> set (instances ?s')
               \<and> DockerStop (containerId (heap s r)) \<in> set (dockerLog ?s')"
  proof (intro ballI impI)
    fix r assume r: "r \<in> set (instances s)"
      and b: "\<not> isHealthy (heap ?s' r) \<and> now - lastHealth (heap ?s' r) > 60000"
    then have u: "r \<in> set ?U" unfolding hf by simp
    then have "DockerStop (containerId (heap ?s1 r)) \<in> set (dockerLog ?s')"
      unfolding s' using dockerLog_removals[of ?s1 ?U ocs] by blast
    then show "r \<notin> set (instances ?s')
               \<and> DockerStop (containerId (heap s r)) \<in> set (dockerLog ?s')"
      using u unfolding inst cid by simp
  qed
qed

lemma instances_P_checkInstanceHealth:
  "instances_P (checkInstanceHealth_P r pr t) = instances_P t"
  by (cases pr) (simp_all add: checkInstanceHealth_P_def modify_P_def)

lemma healthCheckAll_P_never_removes:
  "instances_P (healthCheckAll_P probes t) = instances_P t"
proof -
  have "\<And>u. instances_P (foldl (\<lambda>t r. checkInstanceHealth_P r (probes r) t) u rs) = instances_P u"
    for rs
    by (induction rs) (simp_all add: instances_P_checkInstanceHealth)
  then show ?thesis by (simp add: healthCheckAll_P_def)
qed

text \<open>
  Claim C6. The claim holds for the container variant (\<open>healthCheckAll_evicts\<close>). The
  subprocess variant's \<^verbatim>\<open>healthCheckAll\<close> only probes: here a worker that has been
  unhealthy for 100000 ms is still in the pool after the tick.
\<close>

theorem healthCheckAll_P_keeps_unhealthy:
  "instances_P (healthCheckAll_P (\<lambda>_. ProbeError) demoProc) = [0]
   \<and> \<not> isHealthy_P (heap_P (healthCheckAll_P (\<lambda>_. ProbeError) demoProc) 0)
   \<and> 100000 - lastHealth_P (heap_P (healthCheckAll_P (\<lambda>_. ProbeError) demoProc) 0) > 60000"
  by (simp add: healthCheckAll_P_def checkInstanceHealth_P_def modify_P_def demoProc_def)

section \<open>The pool size and \<^verbatim>\<open>maxInstances\<close>\<close>

text \<open>What the guard of \<^verbatim>\<open>shouldScaleUp\<close> does bound is the number of healthy workers.\<close>

lemma shouldScaleUp_healthy_below_max:
  "shouldScaleUp cfg s \<Longrightarrow> int (length (getHealthyInstances s)) < maxInstances cfg"
  by (auto simp: shouldScaleUp_def Let_def split: if_splits)

text \<open>
  Claim C3. \<^verbatim>\<open>shouldScaleUp\<close> compares the number of healthy workers, not the size of the
  pool, with \<^verbatim>\<open>maxInstances\<close>. With \<^verbatim>\<open>minInstances = 1\<close> and \<^verbatim>\<open>maxInstances = 2\<close>, two
  workers that are still starting fill the pool, no worker is healthy, the next tick of
  \<^verbatim>\<open>autoScale\<close> decides to scale up, and the pool grows to three workers.
\<close>

theorem pool_exceeds_maxInstances:
  "maxInstances demoCfg = 2
   \<and> length (instances (run demoCfg (take 4 demoTrace))) = 2
   \<and> length (getHealthyInstances (run demoCfg (take 4 demoTrace))) = 0
   \<and> shouldScaleUp demoCfg (run demoCfg (take 4 demoTrace))
   \<and> autoScale_action demoCfg 11000 (run demoCfg (take 4 demoTrace)) = ScaleUp
   \<and> length (instances (run demoCfg demoTrace)) = 3"
  by (simp add: eval_defs demoTrace_def)

section \<open>How often the decrement runs\<close>

text \<open>
  One completion callback after a dispatch restores the counter.
\<close>

lemma single_completion_restores:
  assumes "pickInstance s = Some r" and "0 \<le> activeRequests (heap s r)"
    and "e = ProxyEnd fin \<or> e = ProxyError \<or> e = ProxyTimeout"
  shows "activeRequests (heap (proxyEvents r now [e] hs (snd (handleRequest url m now s))) r)
           = activeRequests (heap s r)"
  using assms
  by (auto simp: snd_handleRequest onProxyEnd_def onProxyError_def onProxyTimeout_def
      modify_def Let_def)

text \<open>
  Claim C2. The timeout callback destroys the upstream request, upon which the runtime
  delivers an error event to the same request; both callbacks decrement. A worker with
  one other request in flight (counter 1) is chosen, the counter becomes 2, the client is
  answered 504, and after the timeout and the error callback the counter is 0 instead
  of 1; the same on the execution \<open>demoDoubleTrace\<close> from the initial state.
\<close>

theorem timeout_then_error_decrements_twice:
  "activeRequests (heap demoBusy 0) = 1
   \<and> fst (handleRequest ''/api/user'' ''GET'' 5000 demoBusy)
       = Forwarded 0 5000 \<lparr>hostname = ''localhost'', upstreamPort = 5001, path = ''/api/user'',
           httpMethod = ''GET'', hostHeaderPort = 5001, timeout = 30000\<rparr>
   \<and> activeRequests (heap (snd (handleRequest ''/api/user'' ''GET'' 5000 demoBusy)) 0) = 2
   \<and> fst (onProxyTimeout 0 False (snd (handleRequest ''/api/user'' ''GET'' 5000 demoBusy)))
       = Some (504, [(''error'', JStr ''Gateway Timeout''),
                     (''message'', JStr ''Backend server timeout'')])
   \<and> activeRequests
        (heap (proxyEvents 0 5000 [ProxyTimeout, ProxyError] False
                 (snd (handleRequest ''/api/user'' ''GET'' 5000 demoBusy))) 0) = 0
   \<and> activeRequests (heap (run demoCfg (take 5 demoDoubleTrace)) 0) = 1
   \<and> activeRequests (heap (run demoCfg (take 6 demoDoubleTrace)) 0) = 2
   \<and> activeRequests (heap (run demoCfg demoDoubleTrace) 0) = 0"
  by (simp add: eval_defs demoBusy_def demoDoubleTrace_def SERVER_TIMEOUT_def)

end
